theory Spec2Isabelle
  imports Main
begin

section \<open>Data model\<close>

text \<open>
  The row-search layer (\<^verbatim>\<open>search\<close>, \<^verbatim>\<open>exportRows\<close>, \<^verbatim>\<open>fetch\<close>, \<^verbatim>\<open>fetchRaw\<close>,
  \<^verbatim>\<open>fetchView\<close>, \<^verbatim>\<open>getQueriableFields\<close>) and the PouchDB wrapper (\<^verbatim>\<open>put\<close>,
  \<^verbatim>\<open>getPouchDB\<close>) are embedded below. Types imported from \<^verbatim>\<open>@budibase/types\<close> are
  declared outside the files at hand; the records keep the members the code reads.
\<close>

text \<open>
  Modelled from the spec: the enumeration \<^verbatim>\<open>FieldType\<close> of \<^verbatim>\<open>@budibase/types\<close>. The code
  only tests a field's type against \<^verbatim>\<open>FieldType.LINK\<close>; every other constructor stands for
  a plain column.
\<close>

datatype FieldType = LINK | STRING | LONGFORM | OPTIONS | NUMBER | BOOLEAN | DATETIME | JSON

text \<open>
  A field definition: \<^verbatim>\<open>type\<close>, \<^verbatim>\<open>name\<close>, \<^verbatim>\<open>visible\<close> (optional) and, read by the code
  for link fields only, \<^verbatim>\<open>tableId\<close>.
\<close>

record FieldSchema =
  f_type :: FieldType
  f_name :: string
  f_tableId :: string
  f_visible :: "bool option"

text \<open>
  A table: \<^verbatim>\<open>_id\<close> (optional in the type; the code asserts it with \<^verbatim>\<open>table._id!\<close>),
  \<^verbatim>\<open>name\<close> and \<^verbatim>\<open>schema\<close>. The schema object is an association list in the order
  \<^verbatim>\<open>Object.keys\<close> enumerates it; a JavaScript object has no key twice.
\<close>

record Table =
  t_id :: string
  t_name :: string
  t_schema :: "(string \<times> FieldSchema) list"

text \<open>
  Failures: the table store's \<^verbatim>\<open>NotFound\<close>, reading a member of \<^verbatim>\<open>undefined\<close>,
  \<^verbatim>\<open>init has not been called\<close>, and whatever a backend raises.
\<close>

datatype error = NotFound | TypeError | NotInitialised | BackendFailure string

definition Object_keys :: "(string \<times> 'v) list \<Rightarrow> string list" where
  "Object_keys obj = map fst obj"

section \<open>Relational field expansion\<close>

text \<open>
  The closure variable \<^verbatim>\<open>handledTables\<close> is shared by all recursive calls of
  \<^verbatim>\<open>extractTableFields\<close>, so it is threaded through as state. The state also keeps, in
  order, the calls \<^verbatim>\<open>sdk.tables.getTable(subSchema.tableId)\<close> the traversal issues, each
  with the id of the table whose schema was being walked: the pair \<open>(a, b)\<close> is a
  recursion from table \<open>a\<close> into table \<open>b\<close>.
\<close>

record XState =
  handledTables :: "string set"
  fetches :: "(string \<times> string) list"

text \<open>The template string \<^verbatim>\<open>`${a}_${b}`\<close>.\<close>

definition pairKey :: "string \<Rightarrow> string \<Rightarrow> string" where
  "pairKey a b = a @ ''_'' @ b"

text \<open>
  The \<^verbatim>\<open>for\<close> loop of \<^verbatim>\<open>extractTableFields\<close> over the fields still to be handled, with
  the accumulator \<^verbatim>\<open>result\<close>. The recursion into a related table has no bound in the
  source; the first argument is fuel, consumed by one unit at each recursive call of
  \<^verbatim>\<open>extractTableFields\<close>, and \<open>None\<close> is the run that exhausts it. That recursive
  call, \<^verbatim>\<open>extractTableFields(relatedTable, Object.keys(relatedTable.schema))\<close>, stands
  here with its body: the loop over the filtered keys, started on the empty result. A
  rejected promise is \<open>Inl\<close>: \<open>NotFound\<close> from the table store, \<open>TypeError\<close> for
  reading a member of \<^verbatim>\<open>undefined\<close>.
\<close>

fun forFields ::
  "nat \<Rightarrow> (string \<Rightarrow> Table option) \<Rightarrow> Table \<Rightarrow> string list \<Rightarrow> string list \<Rightarrow> XState
     \<Rightarrow> ((error + string list) \<times> XState) option" where
  "forFields n getTable table [] result s = Some (Inr result, s)"
| "forFields n getTable table (field # rest) result s =
     (case map_of (t_schema table) field of
        None \<Rightarrow> Some (Inl TypeError, s)
      | Some subSchema \<Rightarrow>
          if f_type subSchema = LINK then
            if pairKey (t_id table) (f_tableId subSchema) \<in> handledTables s then
              forFields n getTable table rest result s
            else
              (case n of
                 0 \<Rightarrow> None
               | Suc m \<Rightarrow>
                   let s1 = s\<lparr>handledTables :=
                                insert (pairKey (f_tableId subSchema) (t_id table)) (handledTables s),
                              fetches := fetches s @ [(t_id table, f_tableId subSchema)]\<rparr>
                   in (case getTable (f_tableId subSchema) of
                         None \<Rightarrow> Some (Inl NotFound, s1)
                       | Some relatedTable \<Rightarrow>
                           (case forFields m getTable relatedTable
                                   (filter (\<lambda>f. f \<in> set (Object_keys (t_schema relatedTable)))
                                      (Object_keys (t_schema relatedTable)))
                                   [] s1 of
                              None \<Rightarrow> None
                            | Some (Inl e, s2) \<Rightarrow> Some (Inl e, s2)
                            | Some (Inr relatedFields, s2) \<Rightarrow>
                                forFields n getTable table rest
                                  (result
                                    @ map (\<lambda>f. f_name subSchema @ ''.'' @ f) relatedFields
                                    @ map (\<lambda>f. t_name relatedTable @ ''.'' @ f) relatedFields)
                                  s2)))
          else forFields n getTable table rest (result @ [field]) s)"

definition extractTableFields ::
  "nat \<Rightarrow> (string \<Rightarrow> Table option) \<Rightarrow> Table \<Rightarrow> string list \<Rightarrow> XState
     \<Rightarrow> ((error + string list) \<times> XState) option" where
  "extractTableFields n getTable table allowedFields s =
     forFields n getTable table
       (filter (\<lambda>f. f \<in> set allowedFields) (Object_keys (t_schema table))) [] s"

text \<open>
  \<^verbatim>\<open>getQueriableFields(fields, table)\<close>, the parameter \<^verbatim>\<open>fields\<close> being \<open>flds\<close>
  here: the outcome of the promise together with the table fetches made on the way.
\<close>

definition getQueriableFields ::
  "nat \<Rightarrow> (string \<Rightarrow> Table option) \<Rightarrow> string list \<Rightarrow> Table
     \<Rightarrow> ((error + string list) \<times> (string \<times> string) list) option" where
  "getQueriableFields n getTable flds table =
     (case extractTableFields n getTable table flds
             \<lparr>handledTables = {t_id table}, fetches = []\<rparr> of
        None \<Rightarrow> None
      | Some (Inl e, s) \<Rightarrow> Some (Inl e, fetches s)
      | Some (Inr extracted, s) \<Rightarrow> Some (Inr (''_id'' # extracted), fetches s))"

section \<open>Search requests and collaborators\<close>

text \<open>
  JavaScript values as far as the code inspects them. A number is an integer here, with
  \<open>JNaN\<close> apart; a missing property reads as \<open>JUndefined\<close>.
\<close>

datatype jsval =
    JUndefined
  | JNull
  | JBool bool
  | JNum int
  | JNaN
  | JStr string
  | JArr "jsval list"
  | JObj "(string \<times> jsval) list"

type_synonym Row = "(string \<times> jsval) list"

text \<open>
  Modelled from the spec: \<^verbatim>\<open>EmptyFilterOption\<close>, \<^verbatim>\<open>SearchFilters\<close>,
  \<^verbatim>\<open>RowSearchParams\<close> and \<^verbatim>\<open>SearchResponse\<close> of \<^verbatim>\<open>@budibase/types\<close>, and
  \<^verbatim>\<open>ExportRowsParams\<close> and \<^verbatim>\<open>ExportRowsResult\<close> of \<^verbatim>\<open>./search/types\<close>. A filter
  tree is its empty-filter policy and, per operator, the conditions keyed by field path.
\<close>

datatype EmptyFilterOption = RETURN_ALL | RETURN_NONE

record SearchFilters =
  onEmptyFilter :: "EmptyFilterOption option"
  operators :: "(string \<times> (string \<times> jsval) list) list"

record RowSearchParams =
  p_tableId :: string
  p_query :: "SearchFilters option"
  p_sort :: "string option"
  p_sortOrder :: "string option"
  p_sortType :: "string option"
  p_limit :: "nat option"
  p_bookmark :: "string option"
  p_paginate :: "bool option"
  p_fields :: "string list option"
  p_countRows :: "bool option"

record SearchResponse =
  rows :: "Row list"
  r_bookmark :: "string option"
  r_hasNextPage :: "bool option"
  r_totalRows :: "nat option"

record ExportRowsParams =
  x_tableId :: string
  x_format :: string
  x_rowIds :: "string list option"
  x_columns :: "string list option"

record ExportRowsResult =
  x_fileName :: string
  x_content :: string

record ViewParams =
  v_calculation :: string
  v_group :: string
  v_field :: string

text \<open>
  The modules \<^verbatim>\<open>./search/external\<close> and \<^verbatim>\<open>./search/internal\<close> as far as
  \<^verbatim>\<open>pickApi\<close> uses them: each operation may fail.
\<close>

record Backend =
  b_exportRows :: "ExportRowsParams \<Rightarrow> error + ExportRowsResult"
  b_fetch :: "string \<Rightarrow> error + Row list"
  b_fetchRaw :: "string \<Rightarrow> error + Row list"
  b_fetchView :: "string \<Rightarrow> ViewParams \<Rightarrow> error + Row list"

text \<open>
  Everything \<^verbatim>\<open>search\<close> imports and calls, as parameters:
  \<^verbatim>\<open>isExternalTableID\<close>, the \<^verbatim>\<open>dataFilters\<close> helpers, \<^verbatim>\<open>sdk.tables.getTable\<close>,
  \<^verbatim>\<open>searchInputMapping\<close>, \<^verbatim>\<open>removeInvalidFilters\<close>, \<^verbatim>\<open>dbCore.isSqsEnabledForTenant()\<close>
  and the three executors \<^verbatim>\<open>external.search\<close>, \<^verbatim>\<open>internal.sqs.search\<close> and
  \<^verbatim>\<open>internal.lucene.search\<close>. The platform's \<^verbatim>\<open>String.prototype.toLowerCase\<close>, which
  maps every cased character of Unicode, is a parameter as well. The tracer only records
  tags and is left out.
\<close>

record Deps =
  isExternalTableID :: "string \<Rightarrow> bool"
  cleanupQuery :: "SearchFilters \<Rightarrow> SearchFilters"
  fixupFilterArrays :: "SearchFilters \<Rightarrow> SearchFilters"
  hasFilters :: "SearchFilters \<Rightarrow> bool"
  tables_getTable :: "string \<Rightarrow> Table option"
  searchInputMapping :: "Table \<Rightarrow> RowSearchParams \<Rightarrow> RowSearchParams"
  removeInvalidFilters :: "SearchFilters option \<Rightarrow> string list \<Rightarrow> SearchFilters"
  isSqsEnabledForTenant :: bool
  toLowerCase :: "string \<Rightarrow> string"
  external_search :: "RowSearchParams \<Rightarrow> Table \<Rightarrow> error + SearchResponse"
  internal_sqs_search :: "RowSearchParams \<Rightarrow> Table \<Rightarrow> error + SearchResponse"
  internal_lucene_search :: "RowSearchParams \<Rightarrow> Table \<Rightarrow> error + SearchResponse"
  external :: Backend
  internal :: Backend

section \<open>Routing by table locality\<close>

definition pickApi :: "Deps \<Rightarrow> string \<Rightarrow> Backend" where
  "pickApi deps tableId =
     (if isExternalTableID deps tableId then external deps else internal deps)"

definition exportRows :: "Deps \<Rightarrow> ExportRowsParams \<Rightarrow> error + ExportRowsResult" where
  "exportRows deps options = b_exportRows (pickApi deps (x_tableId options)) options"

definition fetch :: "Deps \<Rightarrow> string \<Rightarrow> error + Row list" where
  "fetch deps tableId = b_fetch (pickApi deps tableId) tableId"

definition fetchRaw :: "Deps \<Rightarrow> string \<Rightarrow> error + Row list" where
  "fetchRaw deps tableId = b_fetchRaw (pickApi deps tableId) tableId"

definition fetchView :: "Deps \<Rightarrow> string \<Rightarrow> string \<Rightarrow> ViewParams \<Rightarrow> error + Row list" where
  "fetchView deps tableId viewName params = b_fetchView (pickApi deps tableId) viewName params"

section \<open>The search pipeline\<close>

text \<open>
  The calls \<^verbatim>\<open>search\<close> makes to the table store and to the executors, in order. A
  fetch made inside \<^verbatim>\<open>getQueriableFields\<close> is a \<open>GetTable\<close> of the related table.
\<close>

datatype Executor = External | Sqs | Lucene

datatype call = GetTable string | Search Executor RowSearchParams Table

text \<open>
  Lines 163 and 164: \<^verbatim>\<open>cleanupQuery(options.query || {})\<close>, then
  \<^verbatim>\<open>fixupFilterArrays\<close>.
\<close>

definition cleanedQuery :: "Deps \<Rightarrow> RowSearchParams \<Rightarrow> SearchFilters" where
  "cleanedQuery deps options =
     fixupFilterArrays deps
       (cleanupQuery deps
          (case p_query options of
             None \<Rightarrow> \<lparr>onEmptyFilter = None, operators = []\<rparr>
           | Some q \<Rightarrow> q))"

text \<open>
  Lines 181 to 186: the sort order in lower case when it is a non-empty string, then
  \<^verbatim>\<open>searchInputMapping(table, options)\<close>.
\<close>

definition mappedOptions :: "Deps \<Rightarrow> RowSearchParams \<Rightarrow> Table \<Rightarrow> RowSearchParams" where
  "mappedOptions deps options table =
     (let options1 = options\<lparr>p_query := Some (cleanedQuery deps options)\<rparr>;
          options2 = (case p_sortOrder options1 of
                        None \<Rightarrow> options1
                      | Some sortOrder \<Rightarrow>
                          if sortOrder = [] then options1
                          else options1\<lparr>p_sortOrder := Some (toLowerCase deps sortOrder)\<rparr>)
      in searchInputMapping deps table options2)"

text \<open>
  Lines 188 to 199: the value assigned to \<^verbatim>\<open>options.fields\<close>. A defined array is
  truthy also when empty.
\<close>

definition selectedFields :: "Deps \<Rightarrow> RowSearchParams \<Rightarrow> Table \<Rightarrow> string list" where
  "selectedFields deps options table =
     (let visibleTableFields =
            filter (\<lambda>f. case map_of (t_schema table) f of
                           None \<Rightarrow> False
                         | Some sub \<Rightarrow> f_visible sub \<noteq> Some False)
              (Object_keys (t_schema table))
      in case p_fields options of
           Some fs \<Rightarrow>
             (let tableFields = map (toLowerCase deps) visibleTableFields
              in filter (\<lambda>f. toLowerCase deps f \<in> set tableFields) fs)
         | None \<Rightarrow> visibleTableFields)"

definition runSearch :: "Deps \<Rightarrow> Executor \<Rightarrow> RowSearchParams \<Rightarrow> Table \<Rightarrow> error + SearchResponse" where
  "runSearch deps ex options table =
     (case ex of
        External \<Rightarrow> external_search deps options table
      | Sqs \<Rightarrow> internal_sqs_search deps options table
      | Lucene \<Rightarrow> internal_lucene_search deps options table)"

text \<open>
  \<^verbatim>\<open>search(options)\<close>: the calls made and the outcome of the promise; \<open>None\<close> when
  the field expansion exhausts the fuel.
\<close>

definition search ::
  "nat \<Rightarrow> Deps \<Rightarrow> RowSearchParams \<Rightarrow> (call list \<times> (error + SearchResponse)) option" where
  "search n deps options =
     (let isExternalTable = isExternalTableID deps (p_tableId options);
          query = cleanedQuery deps options
      in if \<not> hasFilters deps query \<and> onEmptyFilter query = Some RETURN_NONE then
           Some ([], Inr \<lparr>rows = [], r_bookmark = None, r_hasNextPage = None, r_totalRows = None\<rparr>)
         else
           (case tables_getTable deps (p_tableId options) of
              None \<Rightarrow> Some ([GetTable (p_tableId options)], Inl NotFound)
            | Some table \<Rightarrow>
                let options3 = mappedOptions deps options table;
                    options4 = options3\<lparr>p_fields := Some (selectedFields deps options3 table)\<rparr>
                in (case getQueriableFields n (tables_getTable deps) (selectedFields deps options3 table) table of
                      None \<Rightarrow> None
                    | Some (Inl e, fetched) \<Rightarrow>
                        Some (GetTable (p_tableId options) # map (\<lambda>e. GetTable (snd e)) fetched, Inl e)
                    | Some (Inr queriable, fetched) \<Rightarrow>
                        let options5 = options4\<lparr>p_query :=
                                          Some (removeInvalidFilters deps (p_query options4) queriable)\<rparr>;
                            calls = GetTable (p_tableId options) # map (\<lambda>e. GetTable (snd e)) fetched
                        in if isExternalTable then
                             Some (calls @ [Search External options5 table],
                                   external_search deps options5 table)
                           else if isSqsEnabledForTenant deps then
                             Some (calls @ [Search Sqs options5 table],
                                   internal_sqs_search deps options5 table)
                           else
                             Some (calls @ [Search Lucene options5 table],
                                   internal_lucene_search deps options5 table))))"

text \<open>
  The selection policy in the specification's words: external when the table is
  externally hosted, else the structured-query engine when the tenant has it enabled, else
  the legacy index engine.
\<close>

definition spec_select :: "bool \<Rightarrow> bool \<Rightarrow> Executor" where
  "spec_select externallyHosted structuredEnabled =
     (if externallyHosted then External else if structuredEnabled then Sqs else Lucene)"

definition executorCalls :: "call list \<Rightarrow> call list" where
  "executorCalls calls = filter (\<lambda>c. case c of GetTable _ \<Rightarrow> False | Search _ _ _ \<Rightarrow> True) calls"

section \<open>The PouchDB wrapper\<close>

text \<open>
  A document is its properties; a property that is missing reads as \<^verbatim>\<open>undefined\<close>.
  \<open>truthy\<close> is JavaScript's \<^verbatim>\<open>ToBoolean\<close>, which \<^verbatim>\<open>!doc.createdAt\<close> negates.
\<close>

type_synonym doc = "string \<Rightarrow> jsval option"

fun truthy :: "jsval \<Rightarrow> bool" where
  "truthy JUndefined = False"
| "truthy JNull = False"
| "truthy (JBool b) = b"
| "truthy (JNum n) = (n \<noteq> 0)"
| "truthy JNaN = False"
| "truthy (JStr s) = (s \<noteq> [])"
| "truthy (JArr xs) = True"
| "truthy (JObj kvs) = True"

definition getProp :: "doc \<Rightarrow> string \<Rightarrow> jsval" where
  "getProp d k = (case d k of None \<Rightarrow> JUndefined | Some v \<Rightarrow> v)"

text \<open>
  \<^verbatim>\<open>put(dbPut)(doc, options = {})\<close>. The clock is read through
  \<^verbatim>\<open>new Date().toISOString()\<close>: \<open>clock k\<close> is the string the \<open>k\<close>-th read returns and the
  state is the number of reads so far. The document is changed in place, so the changed
  document is returned next to what \<^verbatim>\<open>dbPut\<close> returns.
\<close>

definition put ::
  "(doc \<Rightarrow> Row \<Rightarrow> 'r) \<Rightarrow> (nat \<Rightarrow> string) \<Rightarrow> nat \<Rightarrow> doc \<Rightarrow> Row option \<Rightarrow> 'r \<times> doc \<times> nat" where
  "put dbPut clock k d options =
     (let opts = (case options of None \<Rightarrow> [] | Some given \<Rightarrow> given);
          (d1, k1) = (if \<not> truthy (getProp d ''createdAt'')
                      then (d(''createdAt'' \<mapsto> JStr (clock k)), Suc k)
                      else (d, k));
          d2 = d1(''updatedAt'' \<mapsto> JStr (clock k1))
      in (dbPut d2 opts, d2, Suc k1))"

text \<open>
  The module's variables \<^verbatim>\<open>initialised\<close>, \<^verbatim>\<open>Pouch\<close>, \<^verbatim>\<open>dbList\<close> and \<^verbatim>\<open>openDbs\<close>, the
  two environment settings the code reads, a database as the constructor \<^verbatim>\<open>Pouch\<close>
  builds it and a database as \<^verbatim>\<open>getPouchDB\<close> hands it out.
\<close>

record Env =
  isTest :: bool
  MEMORY_LEAK_CHECK :: bool

record 'r RawDatabase =
  raw_name :: string
  raw_put :: "doc \<Rightarrow> Row \<Rightarrow> 'r"

record 'r Database =
  db_name :: string
  db_put :: "(nat \<Rightarrow> string) \<Rightarrow> nat \<Rightarrow> doc \<Rightarrow> Row option \<Rightarrow> 'r \<times> doc \<times> nat"

record 'r Module =
  initialised :: bool
  Pouch :: "(string \<Rightarrow> Row option \<Rightarrow> 'r RawDatabase) option"
  dbList :: "string set"
  openDbs :: "string list"

definition init ::
  "(Row option \<Rightarrow> string \<Rightarrow> Row option \<Rightarrow> 'r RawDatabase) \<Rightarrow> Row option \<Rightarrow> 'r Module \<Rightarrow> 'r Module" where
  "init getPouch opts st = st\<lparr>Pouch := Some (getPouch opts), initialised := True\<rparr>"

definition getPouchDB ::
  "Env \<Rightarrow> 'r Module \<Rightarrow> string \<Rightarrow> Row option \<Rightarrow> (error + 'r Database) \<times> 'r Module" where
  "getPouchDB env st dbName opts =
     (if \<not> initialised st then (Inl NotInitialised, st)
      else
        let st1 = (if isTest env then st\<lparr>dbList := insert dbName (dbList st)\<rparr> else st)
        in (case Pouch st1 of
              None \<Rightarrow> (Inl TypeError, st1)
            | Some construct \<Rightarrow>
                let db = construct dbName opts;
                    st2 = (if MEMORY_LEAK_CHECK env
                           then st1\<lparr>openDbs := openDbs st1 @ [raw_name db]\<rparr> else st1);
                    dbPut = raw_put db
                in (Inr \<lparr>db_name = raw_name db, db_put = put dbPut\<rparr>, st2)))"

section \<open>Notions used in the statements\<close>

text \<open>
  The state change of lines 268 and 269 (the key recorded, the fetch issued) and the two
  lists pushed at lines 275 and 277, under names of their own.
\<close>

definition enter :: "Table \<Rightarrow> FieldSchema \<Rightarrow> XState \<Rightarrow> XState" where
  "enter table subSchema s =
     s\<lparr>handledTables := insert (pairKey (f_tableId subSchema) (t_id table)) (handledTables s),
       fetches := fetches s @ [(t_id table, f_tableId subSchema)]\<rparr>"

definition qualify :: "FieldSchema \<Rightarrow> Table \<Rightarrow> string list \<Rightarrow> string list" where
  "qualify subSchema relatedTable relatedFields =
     map (\<lambda>f. f_name subSchema @ ''.'' @ f) relatedFields
       @ map (\<lambda>f. t_name relatedTable @ ''.'' @ f) relatedFields"

text \<open>Whether a schema key is a link field; the schema keys that are not, in schema order.\<close>

definition isLinkField :: "Table \<Rightarrow> string \<Rightarrow> bool" where
  "isLinkField table f =
     (case map_of (t_schema table) f of None \<Rightarrow> False | Some sub \<Rightarrow> f_type sub = LINK)"

definition plainFields :: "Table \<Rightarrow> string list" where
  "plainFields table = filter (\<lambda>f. \<not> isLinkField table f) (Object_keys (t_schema table))"

text \<open>No entry of a list of recursions is followed, later in the list, by its reverse.\<close>

fun noReverseLater :: "(string \<times> string) list \<Rightarrow> bool" where
  "noReverseLater [] = True"
| "noReverseLater (e # es) = ((snd e, fst e) \<notin> set es \<and> noReverseLater es)"

text \<open>
  What a requested key of \<open>A\<close> contributes when every link of \<open>A\<close> leads to \<open>B\<close> and \<open>B\<close>
  is not expanded further: the key itself, or both spellings of \<open>B\<close>'s plain keys.
\<close>

definition expandField :: "Table \<Rightarrow> Table \<Rightarrow> string \<Rightarrow> string list" where
  "expandField A B f =
     (case map_of (t_schema A) f of
        None \<Rightarrow> []
      | Some sub \<Rightarrow> if f_type sub = LINK then qualify sub B (plainFields B) else [f])"

text \<open>
  Between two states of one traversal: keys are only added; the recursions made in
  between each have their reverse key recorded at the end and had their own key unrecorded
  at the start; and none of them is followed by its reverse.
\<close>

definition edgesOk :: "XState \<Rightarrow> XState \<Rightarrow> bool" where
  "edgesOk s s' =
     (handledTables s \<subseteq> handledTables s' \<and>
      (\<exists>ext. fetches s' = fetches s @ ext \<and>
             (\<forall>e \<in> set ext. pairKey (snd e) (fst e) \<in> handledTables s'
                              \<and> pairKey (fst e) (snd e) \<notin> handledTables s) \<and>
             noReverseLater ext))"

text \<open>
  The loop of \<^verbatim>\<open>extractTableFields\<close> once more, equation for equation as \<open>forFields\<close>,
  but keeping the state reached when the fuel runs out: the first component is \<open>None\<close>
  when the traversal was cut off at a recursion deeper than the fuel allows, and the state
  is the one in which that recursion was about to be made. For every fuel the recorded
  fetches are an initial part of what the source does. \<open>traversal\<close> is the run
  \<^verbatim>\<open>getQueriableFields\<close> starts.
\<close>

fun traverse ::
  "nat \<Rightarrow> (string \<Rightarrow> Table option) \<Rightarrow> Table \<Rightarrow> string list \<Rightarrow> string list \<Rightarrow> XState
     \<Rightarrow> (error + string list) option \<times> XState" where
  "traverse n getTable table [] result s = (Some (Inr result), s)"
| "traverse n getTable table (field # rest) result s =
     (case map_of (t_schema table) field of
        None \<Rightarrow> (Some (Inl TypeError), s)
      | Some subSchema \<Rightarrow>
          if f_type subSchema = LINK then
            if pairKey (t_id table) (f_tableId subSchema) \<in> handledTables s then
              traverse n getTable table rest result s
            else
              (case n of
                 0 \<Rightarrow> (None, s)
               | Suc m \<Rightarrow>
                   let s1 = s\<lparr>handledTables :=
                                insert (pairKey (f_tableId subSchema) (t_id table)) (handledTables s),
                              fetches := fetches s @ [(t_id table, f_tableId subSchema)]\<rparr>
                   in (case getTable (f_tableId subSchema) of
                         None \<Rightarrow> (Some (Inl NotFound), s1)
                       | Some relatedTable \<Rightarrow>
                           (case traverse m getTable relatedTable
                                   (filter (\<lambda>f. f \<in> set (Object_keys (t_schema relatedTable)))
                                      (Object_keys (t_schema relatedTable)))
                                   [] s1 of
                              (None, s2) \<Rightarrow> (None, s2)
                            | (Some (Inl e), s2) \<Rightarrow> (Some (Inl e), s2)
                            | (Some (Inr relatedFields), s2) \<Rightarrow>
                                traverse n getTable table rest
                                  (result
                                    @ map (\<lambda>f. f_name subSchema @ ''.'' @ f) relatedFields
                                    @ map (\<lambda>f. t_name relatedTable @ ''.'' @ f) relatedFields)
                                  s2)))
          else traverse n getTable table rest (result @ [field]) s)"

text \<open>Forgetting the state of a traversal that was cut off gives the run of \<open>forFields\<close>.\<close>

definition cutOff ::
  "(error + string list) option \<times> XState \<Rightarrow> ((error + string list) \<times> XState) option" where
  "cutOff r = (case r of (None, s) \<Rightarrow> None | (Some x, s) \<Rightarrow> Some (x, s))"

definition traversal ::
  "nat \<Rightarrow> (string \<Rightarrow> Table option) \<Rightarrow> string list \<Rightarrow> Table
     \<Rightarrow> (error + string list) option \<times> XState" where
  "traversal n getTable flds table =
     traverse n getTable table
       (filter (\<lambda>f. f \<in> set flds) (Object_keys (t_schema table))) []
       \<lparr>handledTables = {t_id table}, fetches = []\<rparr>"


text \<open>
  The request \<^verbatim>\<open>search\<close> hands to the executor (lines 186 to 204): mapped, with the
  selected fields, and with the filters outside the queriable fields removed.
\<close>

definition handedOptions :: "Deps \<Rightarrow> RowSearchParams \<Rightarrow> Table \<Rightarrow> string list \<Rightarrow> RowSearchParams" where
  "handedOptions deps options table queriable =
     (mappedOptions deps options table)
       \<lparr>p_fields := Some (selectedFields deps (mappedOptions deps options table) table),
        p_query := Some (removeInvalidFilters deps
                           (p_query (mappedOptions deps options table)) queriable)\<rparr>"

text \<open>
  None of the three keys that a walk round the triangle \<open>A \<rightarrow> B \<rightarrow> C \<rightarrow> A\<close> of the
  sample tables below tests is recorded.
\<close>

definition tri_open :: "XState \<Rightarrow> bool" where
  "tri_open s = (''ta_A_ta_B'' \<notin> handledTables s \<and> ''ta_B_ta_C'' \<notin> handledTables s
                 \<and> ''ta_C_ta_A'' \<notin> handledTables s)"

section \<open>Sample inputs\<close>

text \<open>A link field and a plain field with default members.\<close>

definition link :: "string \<Rightarrow> string \<Rightarrow> FieldSchema" where
  "link nm target = \<lparr>f_type = LINK, f_name = nm, f_tableId = target, f_visible = None\<rparr>"

definition plain :: "string \<Rightarrow> FieldSchema" where
  "plain nm = \<lparr>f_type = STRING, f_name = nm, f_tableId = [], f_visible = None\<rparr>"

text \<open>
  Three tables linked pairwise in both directions; a table with two links to the same
  other table; two tables linked to each other.
\<close>

definition tri_A :: Table where
  "tri_A = \<lparr>t_id = ''ta_A'', t_name = ''A'',
            t_schema = [(''toB'', link ''toB'' ''ta_B''), (''toC'', link ''toC'' ''ta_C'')]\<rparr>"

definition tri_B :: Table where
  "tri_B = \<lparr>t_id = ''ta_B'', t_name = ''B'',
            t_schema = [(''toA'', link ''toA'' ''ta_A''), (''toC'', link ''toC'' ''ta_C'')]\<rparr>"

definition tri_C :: Table where
  "tri_C = \<lparr>t_id = ''ta_C'', t_name = ''C'',
            t_schema = [(''toA'', link ''toA'' ''ta_A''), (''toB'', link ''toB'' ''ta_B'')]\<rparr>"

definition tri_getTable :: "string \<Rightarrow> Table option" where
  "tri_getTable tableId =
     (if tableId = ''ta_A'' then Some tri_A
      else if tableId = ''ta_B'' then Some tri_B
      else if tableId = ''ta_C'' then Some tri_C
      else None)"

definition dup_A :: Table where
  "dup_A = \<lparr>t_id = ''ta_A'', t_name = ''A'',
            t_schema = [(''first'', link ''first'' ''ta_B''), (''second'', link ''second'' ''ta_B'')]\<rparr>"

definition dup_B :: Table where
  "dup_B = \<lparr>t_id = ''ta_B'', t_name = ''B'', t_schema = [(''x'', plain ''x'')]\<rparr>"

definition dup_getTable :: "string \<Rightarrow> Table option" where
  "dup_getTable tableId =
     (if tableId = ''ta_A'' then Some dup_A else if tableId = ''ta_B'' then Some dup_B else None)"

definition cyc_A :: Table where
  "cyc_A = \<lparr>t_id = ''ta_A'', t_name = ''A'',
            t_schema = [(''a1'', plain ''a1''), (''bs'', link ''bs'' ''ta_B'')]\<rparr>"

definition cyc_B :: Table where
  "cyc_B = \<lparr>t_id = ''ta_B'', t_name = ''B'',
            t_schema = [(''b1'', plain ''b1''), (''as'', link ''as'' ''ta_A''), (''b2'', plain ''b2'')]\<rparr>"

definition cyc_getTable :: "string \<Rightarrow> Table option" where
  "cyc_getTable tableId =
     (if tableId = ''ta_A'' then Some cyc_A else if tableId = ''ta_B'' then Some cyc_B else None)"

text \<open>
  A table with two links to itself, and a table whose link names a table the store does
  not have.
\<close>

definition self_S :: Table where
  "self_S = \<lparr>t_id = ''ta_S'', t_name = ''S'',
             t_schema = [(''parent'', link ''parent'' ''ta_S''), (''child'', link ''child'' ''ta_S''),
                         (''s1'', plain ''s1'')]\<rparr>"

definition self_getTable :: "string \<Rightarrow> Table option" where
  "self_getTable tableId = (if tableId = ''ta_S'' then Some self_S else None)"


text \<open>
  A store of one internal and one external table with stub collaborators (the case mapping
  restricted to ASCII), two requests, and a module after \<^verbatim>\<open>init\<close>.
\<close>

definition asciiLowerCase :: "string \<Rightarrow> string" where
  "asciiLowerCase s =
     map (\<lambda>c. let n = (of_char c :: nat) in if 65 \<le> n \<and> n \<le> 90 then char_of (n + 32) else c) s"

definition demo_people :: Table where
  "demo_people = \<lparr>t_id = ''ta_people'', t_name = ''people'',
                   t_schema = [(''name'', plain ''name'')]\<rparr>"

definition demo_customers :: Table where
  "demo_customers = \<lparr>t_id = ''datasource_plus_pg__customers'', t_name = ''customers'',
                      t_schema = [(''email'', plain ''email'')]\<rparr>"

definition demo_backend :: "string \<Rightarrow> Backend" where
  "demo_backend tag =
     \<lparr>b_exportRows = (\<lambda>options. Inr \<lparr>x_fileName = tag, x_content = []\<rparr>),
      b_fetch = (\<lambda>tableId. Inr [[(''from'', JStr tag)]]),
      b_fetchRaw = (\<lambda>tableId. Inr [[(''from'', JStr tag)]]),
      b_fetchView = (\<lambda>viewName params. Inr [[(''from'', JStr tag)]])\<rparr>"

definition demo_deps :: "bool \<Rightarrow> Deps" where
  "demo_deps sqs =
     \<lparr>isExternalTableID = (\<lambda>tableId. take 11 tableId = ''datasource_''),
      cleanupQuery = (\<lambda>q. q),
      fixupFilterArrays = (\<lambda>q. q),
      hasFilters = (\<lambda>q. operators q \<noteq> []),
      tables_getTable = (\<lambda>tableId. if tableId = ''ta_people'' then Some demo_people
                                    else if tableId = ''datasource_plus_pg__customers''
                                    then Some demo_customers else None),
      searchInputMapping = (\<lambda>table options. options),
      removeInvalidFilters = (\<lambda>q allowed. case q of None \<Rightarrow> \<lparr>onEmptyFilter = None, operators = []\<rparr> | Some q' \<Rightarrow> q'),
      isSqsEnabledForTenant = sqs,
      toLowerCase = asciiLowerCase,
      external_search = (\<lambda>options table. Inl (BackendFailure ''connection refused'')),
      internal_sqs_search = (\<lambda>options table.
         Inr \<lparr>rows = [[(''engine'', JStr ''sqs'')]], r_bookmark = None, r_hasNextPage = None, r_totalRows = None\<rparr>),
      internal_lucene_search = (\<lambda>options table.
         Inr \<lparr>rows = [[(''engine'', JStr ''lucene'')]], r_bookmark = None, r_hasNextPage = None, r_totalRows = None\<rparr>),
      external = demo_backend ''external'',
      internal = demo_backend ''internal''\<rparr>"

definition demo_request :: "SearchFilters option \<Rightarrow> RowSearchParams" where
  "demo_request q =
     \<lparr>p_tableId = ''ta_people'', p_query = q, p_sort = None, p_sortOrder = None,
      p_sortType = None, p_limit = None, p_bookmark = None, p_paginate = None,
      p_fields = None, p_countRows = None\<rparr>"

definition demo_external_request :: RowSearchParams where
  "demo_external_request = (demo_request None)\<lparr>p_tableId := ''datasource_plus_pg__customers''\<rparr>"

definition demo_module :: "(doc \<times> Row) Module" where
  "demo_module =
     \<lparr>initialised = True,
      Pouch = Some (\<lambda>name opts. \<lparr>raw_name = name, raw_put = (\<lambda>d given. (d, given))\<rparr>),
      dbList = {}, openDbs = []\<rparr>"

definition demo_env :: Env where
  "demo_env = \<lparr>isTest = False, MEMORY_LEAK_CHECK = False\<rparr>"

definition demo_clock :: "nat \<Rightarrow> string" where
  "demo_clock k = (if k = 0 then ''2024-05-01T10:00:00.000Z'' else ''2024-05-01T10:00:00.001Z'')"

definition demo_doc :: "jsval \<Rightarrow> doc" where
  "demo_doc created = [''_id'' \<mapsto> JStr ''ro_1'', ''createdAt'' \<mapsto> created]"

section \<open>Stepping the loop\<close>

text \<open>
  One equation per branch of the loop body, and the induction principle that follows the
  recursion: on the fuel, then on the fields still to be handled.
\<close>

lemma forFields_missing:
  "map_of (t_schema table) field = None \<Longrightarrow>
     forFields n getTable table (field # rest) result s = Some (Inl TypeError, s)"
  by simp

lemma forFields_plain_step:
  "map_of (t_schema table) field = Some sub \<Longrightarrow> f_type sub \<noteq> LINK \<Longrightarrow>
     forFields n getTable table (field # rest) result s
       = forFields n getTable table rest (result @ [field]) s"
  by simp

lemma forFields_skip_step:
  "map_of (t_schema table) field = Some sub \<Longrightarrow> f_type sub = LINK \<Longrightarrow>
   pairKey (t_id table) (f_tableId sub) \<in> handledTables s \<Longrightarrow>
     forFields n getTable table (field # rest) result s
       = forFields n getTable table rest result s"
  by simp

lemma forFields_no_fuel:
  "map_of (t_schema table) field = Some sub \<Longrightarrow> f_type sub = LINK \<Longrightarrow>
   pairKey (t_id table) (f_tableId sub) \<notin> handledTables s \<Longrightarrow>
     forFields 0 getTable table (field # rest) result s = None"
  by simp

lemma forFields_not_found:
  "map_of (t_schema table) field = Some sub \<Longrightarrow> f_type sub = LINK \<Longrightarrow>
   pairKey (t_id table) (f_tableId sub) \<notin> handledTables s \<Longrightarrow>
   getTable (f_tableId sub) = None \<Longrightarrow>
     forFields (Suc m) getTable table (field # rest) result s
       = Some (Inl NotFound, enter table sub s)"
  by (simp add: enter_def)

lemma forFields_link_step:
  "map_of (t_schema table) field = Some sub \<Longrightarrow> f_type sub = LINK \<Longrightarrow>
   pairKey (t_id table) (f_tableId sub) \<notin> handledTables s \<Longrightarrow>
   getTable (f_tableId sub) = Some relatedTable \<Longrightarrow>
     forFields (Suc m) getTable table (field # rest) result s
       = (case forFields m getTable relatedTable (Object_keys (t_schema relatedTable)) []
                 (enter table sub s) of
            None \<Rightarrow> None
          | Some (Inl e, s2) \<Rightarrow> Some (Inl e, s2)
          | Some (Inr relatedFields, s2) \<Rightarrow>
              forFields (Suc m) getTable table rest
                (result @ qualify sub relatedTable relatedFields) s2)"
  unfolding enter_def qualify_def by simp

lemma forFields_induct [case_names Nil Missing Plain Skip NoFuel Enter]:
  assumes nil: "\<And>n table result s. P n table [] result s"
    and missing: "\<And>n table field rest result s.
        map_of (t_schema table) field = None \<Longrightarrow> P n table (field # rest) result s"
    and plain: "\<And>n table field rest result s sub.
        map_of (t_schema table) field = Some sub \<Longrightarrow> f_type sub \<noteq> LINK \<Longrightarrow>
        P n table rest (result @ [field]) s \<Longrightarrow> P n table (field # rest) result s"
    and skip: "\<And>n table field rest result s sub.
        map_of (t_schema table) field = Some sub \<Longrightarrow> f_type sub = LINK \<Longrightarrow>
        pairKey (t_id table) (f_tableId sub) \<in> handledTables s \<Longrightarrow>
        P n table rest result s \<Longrightarrow> P n table (field # rest) result s"
    and nofuel: "\<And>table field rest result s sub.
        map_of (t_schema table) field = Some sub \<Longrightarrow> f_type sub = LINK \<Longrightarrow>
        pairKey (t_id table) (f_tableId sub) \<notin> handledTables s \<Longrightarrow>
        P 0 table (field # rest) result s"
    and enter: "\<And>m table field rest result s sub.
        map_of (t_schema table) field = Some sub \<Longrightarrow> f_type sub = LINK \<Longrightarrow>
        pairKey (t_id table) (f_tableId sub) \<notin> handledTables s \<Longrightarrow>
        (\<And>relatedTable. getTable (f_tableId sub) = Some relatedTable \<Longrightarrow>
            P m relatedTable (Object_keys (t_schema relatedTable)) [] (enter table sub s)) \<Longrightarrow>
        (\<And>relatedTable relatedFields s2.
            getTable (f_tableId sub) = Some relatedTable \<Longrightarrow>
            forFields m getTable relatedTable (Object_keys (t_schema relatedTable)) []
                (enter table sub s) = Some (Inr relatedFields, s2) \<Longrightarrow>
            P (Suc m) table rest (result @ qualify sub relatedTable relatedFields) s2) \<Longrightarrow>
        P (Suc m) table (field # rest) result s"
  shows "P n table fs result s"
proof -
  have "\<forall>t fs r st. P n t fs r st"
  proof (induction n)
    case 0
    have "\<forall>r st. P 0 t fs r st" for t fs
    proof (induction fs)
      case Nil
      show ?case by (simp add: nil)
    next
      case (Cons field rest)
      show ?case
      proof (intro allI)
        fix r st
        show "P 0 t (field # rest) r st"
        proof (cases "map_of (t_schema t) field")
          case None
          then show ?thesis by (rule missing)
        next
          case (Some sub)
          show ?thesis
          proof (cases "f_type sub = LINK")
            case False
            with Some Cons.IH show ?thesis by (intro plain) auto
          next
            case True
            show ?thesis
            proof (cases "pairKey (t_id t) (f_tableId sub) \<in> handledTables st")
              case True
              with Some \<open>f_type sub = LINK\<close> Cons.IH show ?thesis by (intro skip) auto
            next
              case False
              with Some True show ?thesis by (intro nofuel)
            qed
          qed
        qed
      qed
    qed
    then show ?case by blast
  next
    case (Suc m)
    have "\<forall>r st. P (Suc m) t fs r st" for t fs
    proof (induction fs)
      case Nil
      show ?case by (simp add: nil)
    next
      case (Cons field rest)
      show ?case
      proof (intro allI)
        fix r st
        show "P (Suc m) t (field # rest) r st"
        proof (cases "map_of (t_schema t) field")
          case None
          then show ?thesis by (rule missing)
        next
          case (Some sub)
          show ?thesis
          proof (cases "f_type sub = LINK")
            case False
            with Some Cons.IH show ?thesis by (intro plain) auto
          next
            case True
            show ?thesis
            proof (cases "pairKey (t_id t) (f_tableId sub) \<in> handledTables st")
              case True
              with Some \<open>f_type sub = LINK\<close> Cons.IH show ?thesis by (intro skip) auto
            next
              case False
              show ?thesis
                using Suc.IH Cons.IH by (intro enter [OF Some True False]) auto
            qed
          qed
        qed
      qed
    qed
    then show ?case by blast
  qed
  then show ?thesis by blast
qed

declare forFields.simps [simp del]

lemma forFields_result_prefix:
  "forFields n getTable table fs result s = Some (Inr out, s') \<Longrightarrow> \<exists>ext. out = result @ ext"
proof (induction n table fs result s arbitrary: out s' rule: forFields_induct [where getTable = getTable])
  case (Enter m table field rest result s sub)
  note link = Enter.hyps(1) Enter.hyps(2) Enter.hyps(3)
  show ?case
  proof (cases "getTable (f_tableId sub)")
    case None
    with Enter.prems show ?thesis by (simp add: forFields_not_found [where getTable = getTable, OF link])
  next
    case (Some relatedTable)
    from Enter.prems obtain relatedFields s2 where
      inner: "forFields m getTable relatedTable (Object_keys (t_schema relatedTable)) []
                (enter table sub s) = Some (Inr relatedFields, s2)"
      and outer: "forFields (Suc m) getTable table rest
                (result @ qualify sub relatedTable relatedFields) s2 = Some (Inr out, s')"
      by (auto simp: forFields_link_step [where getTable = getTable, OF link Some]
          split: option.splits sum.splits prod.splits)
    from Enter.IH(2) [OF Some inner outer] show ?thesis by auto
  qed
qed (auto simp: forFields.simps(1) forFields_missing forFields_plain_step forFields_skip_step
       forFields_no_fuel)

section \<open>Properties of the field expansion\<close>

lemma map_of_Object_keys:
  "f \<in> set (Object_keys obj) \<Longrightarrow> \<exists>v. map_of obj f = Some v \<and> (f, v) \<in> set obj"
  unfolding Object_keys_def
  by (induction obj) auto

lemma filter_Object_keys_self:
  "filter (\<lambda>f. f \<in> set (Object_keys obj)) (Object_keys obj) = Object_keys obj"
  by simp

lemma forFields_plain:
  assumes "\<forall>f \<in> set fs. \<exists>sub. map_of (t_schema table) f = Some sub \<and> f_type sub \<noteq> LINK"
  shows "forFields n getTable table fs result s = Some (Inr (result @ fs), s)"
  using assms
proof (induction fs arbitrary: result)
  case Nil
  show ?case by (simp add: forFields.simps(1))
next
  case (Cons f fs)
  from Cons.prems obtain sub where sub: "map_of (t_schema table) f = Some sub" "f_type sub \<noteq> LINK"
    by auto
  from Cons.prems have rest: "\<forall>g \<in> set fs. \<exists>sub. map_of (t_schema table) g = Some sub \<and> f_type sub \<noteq> LINK"
    by simp
  show ?case
    using Cons.IH [OF rest, of "result @ [f]"]
    by (simp add: forFields_plain_step [OF sub])
qed

text \<open>
  C7. A table whose schema has no link field: for every requested field list, every table
  store and every amount of fuel, \<^verbatim>\<open>getQueriableFields\<close> returns \<open>_id\<close> followed by
  exactly the schema keys that occur in the requested list, and fetches no table.
\<close>

theorem getQueriableFields_no_links:
  assumes "\<forall>(k, sub) \<in> set (t_schema table). f_type sub \<noteq> LINK"
  shows "getQueriableFields n getTable flds table =
           Some (Inr (''_id'' # filter (\<lambda>f. f \<in> set flds) (Object_keys (t_schema table))), [])"
proof -
  let ?fs = "filter (\<lambda>f. f \<in> set flds) (Object_keys (t_schema table))"
  have "\<forall>f \<in> set ?fs. \<exists>sub. map_of (t_schema table) f = Some sub \<and> f_type sub \<noteq> LINK"
  proof
    fix f assume "f \<in> set ?fs"
    then have "f \<in> set (Object_keys (t_schema table))" by simp
    then obtain v where "map_of (t_schema table) f = Some v" "(f, v) \<in> set (t_schema table)"
      using map_of_Object_keys by blast
    with assms show "\<exists>sub. map_of (t_schema table) f = Some sub \<and> f_type sub \<noteq> LINK"
      by auto
  qed
  then have "forFields n getTable table ?fs [] \<lparr>handledTables = {t_id table}, fetches = []\<rparr>
               = Some (Inr ([] @ ?fs), \<lparr>handledTables = {t_id table}, fetches = []\<rparr>)"
    by (rule forFields_plain)
  then show ?thesis
    by (simp add: getQueriableFields_def extractTableFields_def)
qed

theorem getQueriableFields_no_links_witness:
  "getQueriableFields 0 (\<lambda>_. None) [''age'', ''zip'']
        \<lparr>t_id = ''ta_people'', t_name = ''people'',
         t_schema = [(''name'', \<lparr>f_type = STRING, f_name = ''name'', f_tableId = [], f_visible = None\<rparr>),
                     (''age'', \<lparr>f_type = NUMBER, f_name = ''age'', f_tableId = [], f_visible = None\<rparr>)]\<rparr>
     = Some (Inr [''_id'', ''age''], [])"
  using getQueriableFields_no_links [of
      "\<lparr>t_id = ''ta_people'', t_name = ''people'',
         t_schema = [(''name'', \<lparr>f_type = STRING, f_name = ''name'', f_tableId = [], f_visible = None\<rparr>),
                     (''age'', \<lparr>f_type = NUMBER, f_name = ''age'', f_tableId = [], f_visible = None\<rparr>)]\<rparr>"
      0 "\<lambda>_. None" "[''age'', ''zip'']"]
  by (simp add: Object_keys_def)

lemma forFields_fuel_mono:
  "forFields n getTable table fs result s = Some r \<Longrightarrow> n \<le> n' \<Longrightarrow>
     forFields n' getTable table fs result s = Some r"
proof (induction n table fs result s arbitrary: r n' rule: forFields_induct [where getTable = getTable])
  case (Enter m table field rest result s sub)
  note link = Enter.hyps(1) Enter.hyps(2) Enter.hyps(3)
  from Enter.prems(2) obtain m' where n': "n' = Suc m'" and le: "m \<le> m'"
    by (cases n') auto
  show ?case
  proof (cases "getTable (f_tableId sub)")
    case None
    with Enter.prems show ?thesis
      by (simp add: n' forFields_not_found [where getTable = getTable, OF link])
  next
    case (Some relatedTable)
    from Enter.prems(1) obtain x s2 where
      inner: "forFields m getTable relatedTable (Object_keys (t_schema relatedTable)) []
                (enter table sub s) = Some (x, s2)"
      by (auto simp: forFields_link_step [where getTable = getTable, OF link Some]
          split: option.splits)
    from Enter.IH(1) [OF Some inner le]
    have inner': "forFields m' getTable relatedTable (Object_keys (t_schema relatedTable)) []
                (enter table sub s) = Some (x, s2)" .
    show ?thesis
    proof (cases x)
      case (Inl e)
      with Enter.prems(1) inner inner' show ?thesis
        by (auto simp: n' forFields_link_step [where getTable = getTable, OF link Some])
    next
      case (Inr relatedFields)
      with Enter.prems(1) inner have
        outer: "forFields (Suc m) getTable table rest
                  (result @ qualify sub relatedTable relatedFields) s2 = Some r"
        by (simp add: forFields_link_step [where getTable = getTable, OF link Some])
      from Enter.IH(2) [OF Some inner [unfolded Inr] outer Enter.prems(2)]
      show ?thesis using inner' Inr
        by (simp add: n' forFields_link_step [where getTable = getTable, OF link Some])
    qed
  qed
next
  case (Nil n table result s)
  then show ?case by (simp add: forFields.simps(1))
next
  case (Missing n table field rest result s)
  then show ?case by (simp add: forFields_missing)
next
  case (Plain n table field rest result s sub)
  from Plain.prems(1) have "forFields n getTable table rest (result @ [field]) s = Some r"
    by (simp add: forFields_plain_step [OF Plain.hyps(1,2)])
  from Plain.IH [OF this Plain.prems(2)] show ?case
    by (simp add: forFields_plain_step [OF Plain.hyps(1,2)])
next
  case (Skip n table field rest result s sub)
  from Skip.prems(1) have "forFields n getTable table rest result s = Some r"
    by (simp add: forFields_skip_step [OF Skip.hyps(1,2,3)])
  from Skip.IH [OF this Skip.prems(2)] show ?case
    by (simp add: forFields_skip_step [OF Skip.hyps(1,2,3)])
next
  case (NoFuel table field rest result s sub)
  from NoFuel.prems(1) show ?case
    by (simp add: forFields_no_fuel [OF NoFuel.hyps])
qed



lemma noReverseLater_append:
  "noReverseLater (xs @ ys) =
     (noReverseLater xs \<and> noReverseLater ys \<and> (\<forall>e \<in> set xs. (snd e, fst e) \<notin> set ys))"
  by (induction xs) auto

lemma edgesOk_refl: "edgesOk s s"
  by (simp add: edgesOk_def)

lemma edgesOk_enter:
  "pairKey (t_id table) (f_tableId sub) \<notin> handledTables s \<Longrightarrow> edgesOk s (enter table sub s)"
  by (auto simp: edgesOk_def enter_def)

lemma edgesOk_trans:
  assumes "edgesOk s s1" "edgesOk s1 s2"
  shows "edgesOk s s2"
proof -
  from assms(1) obtain e1 where 1: "handledTables s \<subseteq> handledTables s1"
    "fetches s1 = fetches s @ e1"
    "\<forall>e \<in> set e1. pairKey (snd e) (fst e) \<in> handledTables s1 \<and> pairKey (fst e) (snd e) \<notin> handledTables s"
    "noReverseLater e1"
    unfolding edgesOk_def by blast
  from assms(2) obtain e2 where 2: "handledTables s1 \<subseteq> handledTables s2"
    "fetches s2 = fetches s1 @ e2"
    "\<forall>e \<in> set e2. pairKey (snd e) (fst e) \<in> handledTables s2 \<and> pairKey (fst e) (snd e) \<notin> handledTables s1"
    "noReverseLater e2"
    unfolding edgesOk_def by blast
  have cross: "\<forall>e \<in> set e1. (snd e, fst e) \<notin> set e2"
  proof
    fix e assume "e \<in> set e1"
    with 1(3) have "pairKey (snd e) (fst e) \<in> handledTables s1" by blast
    with 2(3) show "(snd e, fst e) \<notin> set e2" by force
  qed
  have "fetches s2 = fetches s @ (e1 @ e2)" using 1(2) 2(2) by simp
  moreover have "\<forall>e \<in> set (e1 @ e2). pairKey (snd e) (fst e) \<in> handledTables s2
                   \<and> pairKey (fst e) (snd e) \<notin> handledTables s"
    using 1(1,3) 2(1,3) by auto
  moreover have "noReverseLater (e1 @ e2)"
    using 1(4) 2(4) cross by (simp add: noReverseLater_append)
  moreover have "handledTables s \<subseteq> handledTables s2" using 1(1) 2(1) by blast
  ultimately show ?thesis unfolding edgesOk_def by blast
qed

section \<open>The traversal and its guard\<close>

lemma traverse_nil:
  "traverse n getTable table [] result s = (Some (Inr result), s)"
  by simp

lemma traverse_missing:
  "map_of (t_schema table) field = None \<Longrightarrow>
     traverse n getTable table (field # rest) result s = (Some (Inl TypeError), s)"
  by simp

lemma traverse_plain_step:
  "map_of (t_schema table) field = Some sub \<Longrightarrow> f_type sub \<noteq> LINK \<Longrightarrow>
     traverse n getTable table (field # rest) result s
       = traverse n getTable table rest (result @ [field]) s"
  by simp

lemma traverse_skip_step:
  "map_of (t_schema table) field = Some sub \<Longrightarrow> f_type sub = LINK \<Longrightarrow>
   pairKey (t_id table) (f_tableId sub) \<in> handledTables s \<Longrightarrow>
     traverse n getTable table (field # rest) result s
       = traverse n getTable table rest result s"
  by simp

lemma traverse_no_fuel:
  "map_of (t_schema table) field = Some sub \<Longrightarrow> f_type sub = LINK \<Longrightarrow>
   pairKey (t_id table) (f_tableId sub) \<notin> handledTables s \<Longrightarrow>
     traverse 0 getTable table (field # rest) result s = (None, s)"
  by simp

lemma traverse_not_found:
  "map_of (t_schema table) field = Some sub \<Longrightarrow> f_type sub = LINK \<Longrightarrow>
   pairKey (t_id table) (f_tableId sub) \<notin> handledTables s \<Longrightarrow>
   getTable (f_tableId sub) = None \<Longrightarrow>
     traverse (Suc m) getTable table (field # rest) result s
       = (Some (Inl NotFound), enter table sub s)"
  by (simp add: enter_def)

lemma traverse_link_step:
  "map_of (t_schema table) field = Some sub \<Longrightarrow> f_type sub = LINK \<Longrightarrow>
   pairKey (t_id table) (f_tableId sub) \<notin> handledTables s \<Longrightarrow>
   getTable (f_tableId sub) = Some relatedTable \<Longrightarrow>
     traverse (Suc m) getTable table (field # rest) result s
       = (case traverse m getTable relatedTable (Object_keys (t_schema relatedTable)) []
                 (enter table sub s) of
            (None, s2) \<Rightarrow> (None, s2)
          | (Some (Inl e), s2) \<Rightarrow> (Some (Inl e), s2)
          | (Some (Inr relatedFields), s2) \<Rightarrow>
              traverse (Suc m) getTable table rest
                (result @ qualify sub relatedTable relatedFields) s2)"
  unfolding enter_def qualify_def by simp

declare traverse.simps [simp del]

lemma forFields_traverse:
  "forFields n getTable table fs result s = cutOff (traverse n getTable table fs result s)"
proof (induction n table fs result s rule: forFields_induct [where getTable = getTable])
  case (Nil n table result s)
  show ?case by (simp add: forFields.simps(1) traverse_nil cutOff_def)
next
  case (Missing n table field rest result s)
  then show ?case by (simp add: forFields_missing traverse_missing cutOff_def)
next
  case (Plain n table field rest result s sub)
  then show ?case
    by (simp add: forFields_plain_step [OF Plain.hyps(1,2)] traverse_plain_step [OF Plain.hyps(1,2)])
next
  case (Skip n table field rest result s sub)
  then show ?case
    by (simp add: forFields_skip_step [OF Skip.hyps(1,2,3)] traverse_skip_step [OF Skip.hyps(1,2,3)])
next
  case (NoFuel table field rest result s sub)
  then show ?case
    by (simp add: forFields_no_fuel [OF NoFuel.hyps] traverse_no_fuel [OF NoFuel.hyps] cutOff_def)
next
  case (Enter m table field rest result s sub)
  note link = Enter.hyps(1) Enter.hyps(2) Enter.hyps(3)
  show ?case
  proof (cases "getTable (f_tableId sub)")
    case None
    show ?thesis
      by (simp add: forFields_not_found [where getTable = getTable, OF link None]
          traverse_not_found [where getTable = getTable, OF link None] cutOff_def)
  next
    case (Some relatedTable)
    obtain o1 s2 where inner: "traverse m getTable relatedTable (Object_keys (t_schema relatedTable)) []
                (enter table sub s) = (o1, s2)"
      by (cases "traverse m getTable relatedTable (Object_keys (t_schema relatedTable)) []
                (enter table sub s)")
    from Enter.IH(1) [OF Some] inner
    have inner': "forFields m getTable relatedTable (Object_keys (t_schema relatedTable)) []
                (enter table sub s) = cutOff (o1, s2)"
      by simp
    show ?thesis
    proof (cases o1)
      case None
      with inner inner' show ?thesis
        by (simp add: forFields_link_step [where getTable = getTable, OF link Some]
            traverse_link_step [where getTable = getTable, OF link Some] cutOff_def)
    next
      case outcome: (Some x)
      show ?thesis
      proof (cases x)
        case (Inl e)
        with outcome inner inner' show ?thesis
          by (simp add: forFields_link_step [where getTable = getTable, OF link Some]
              traverse_link_step [where getTable = getTable, OF link Some] cutOff_def)
      next
        case (Inr relatedFields)
        with outcome inner' have ff: "forFields m getTable relatedTable
                (Object_keys (t_schema relatedTable)) [] (enter table sub s)
              = Some (Inr relatedFields, s2)"
          by (simp add: cutOff_def)
        from Enter.IH(2) [OF Some ff] ff inner outcome Inr show ?thesis
          by (simp add: forFields_link_step [where getTable = getTable, OF link Some]
              traverse_link_step [where getTable = getTable, OF link Some])
      qed
    qed
  qed
qed

lemma getQueriableFields_traversal:
  "getQueriableFields n getTable flds table
     = (case traversal n getTable flds table of
          (None, s) \<Rightarrow> None
        | (Some (Inl e), s) \<Rightarrow> Some (Inl e, fetches s)
        | (Some (Inr extracted), s) \<Rightarrow> Some (Inr (''_id'' # extracted), fetches s))"
  by (simp add: getQueriableFields_def extractTableFields_def traversal_def forFields_traverse
      cutOff_def split: prod.splits option.splits sum.splits)

lemma traverse_edgesOk:
  "traverse n getTable table fs result s = (out, s') \<Longrightarrow> edgesOk s s'"
proof (induction n table fs result s arbitrary: out s' rule: forFields_induct [where getTable = getTable])
  case (Nil n table result s)
  then show ?case by (simp add: traverse_nil edgesOk_refl)
next
  case (Missing n table field rest result s)
  then show ?case by (simp add: traverse_missing edgesOk_refl)
next
  case (Plain n table field rest result s sub)
  from Plain.prems have "traverse n getTable table rest (result @ [field]) s = (out, s')"
    by (simp add: traverse_plain_step [OF Plain.hyps(1,2)])
  then show ?case by (rule Plain.IH)
next
  case (Skip n table field rest result s sub)
  from Skip.prems have "traverse n getTable table rest result s = (out, s')"
    by (simp add: traverse_skip_step [OF Skip.hyps(1,2,3)])
  then show ?case by (rule Skip.IH)
next
  case (NoFuel table field rest result s sub)
  from NoFuel.prems show ?case
    by (simp add: traverse_no_fuel [OF NoFuel.hyps] edgesOk_refl)
next
  case (Enter m table field rest result s sub)
  note link = Enter.hyps(1) Enter.hyps(2) Enter.hyps(3)
  have step: "edgesOk s (enter table sub s)" by (rule edgesOk_enter [OF link(3)])
  show ?case
  proof (cases "getTable (f_tableId sub)")
    case None
    with Enter.prems step show ?thesis
      by (simp add: traverse_not_found [where getTable = getTable, OF link])
  next
    case (Some relatedTable)
    obtain o1 s2 where inner: "traverse m getTable relatedTable (Object_keys (t_schema relatedTable)) []
                (enter table sub s) = (o1, s2)"
      by (cases "traverse m getTable relatedTable (Object_keys (t_schema relatedTable)) []
                (enter table sub s)")
    from Enter.IH(1) [OF Some inner] step have mid: "edgesOk s s2"
      by (blast intro: edgesOk_trans)
    show ?thesis
    proof (cases o1)
      case None
      with Enter.prems inner mid show ?thesis
        by (simp add: traverse_link_step [where getTable = getTable, OF link Some])
    next
      case outcome: (Some x)
      show ?thesis
      proof (cases x)
        case (Inl e)
        with outcome Enter.prems inner mid show ?thesis
          by (simp add: traverse_link_step [where getTable = getTable, OF link Some])
      next
        case (Inr relatedFields)
        with outcome inner have ff: "forFields m getTable relatedTable
                (Object_keys (t_schema relatedTable)) [] (enter table sub s)
              = Some (Inr relatedFields, s2)"
          by (simp add: forFields_traverse cutOff_def)
        from Enter.prems inner outcome Inr have
          outer: "traverse (Suc m) getTable table rest
                    (result @ qualify sub relatedTable relatedFields) s2 = (out, s')"
          by (simp add: traverse_link_step [where getTable = getTable, OF link Some])
        from Enter.IH(2) [OF Some ff outer] mid show ?thesis
          by (blast intro: edgesOk_trans)
      qed
    qed
  qed
qed


text \<open>
  C1 (as the code has it). At a link field from the current table \<open>A\<close> to the related
  table \<open>B\<close> the loop tests the key \<^verbatim>\<open>`${A}_${B}`\<close>. When the key is recorded the
  field is skipped and the state stays as it is. When it is not, the key of the opposite
  ordered pair, \<^verbatim>\<open>`${B}_${A}`\<close>, is recorded, the related table is fetched and, if it
  resolves, expanded over all its keys from that state (\<open>NotFound\<close> otherwise). So in
  every traversal that \<^verbatim>\<open>getQueriableFields\<close> starts, be it finished, failed or cut off
  at any recursion depth, the reverse key of every recursion made is recorded at the end,
  and once the recursion has gone from a table \<open>a\<close> into a table \<open>b\<close> no later recursion
  goes from \<open>b\<close> into \<open>a\<close>: no entry of the list of recursions is followed by its
  reverse. (For a table linked to itself the reverse edge is the edge itself.)
\<close>

theorem guard_blocks_reverse_edge:
  assumes sub: "map_of (t_schema table) field = Some sub"
    and link: "f_type sub = LINK"
  shows "(pairKey (t_id table) (f_tableId sub) \<in> handledTables s \<longrightarrow>
            forFields n getTable table (field # rest) result s
              = forFields n getTable table rest result s)
       \<and> (pairKey (t_id table) (f_tableId sub) \<notin> handledTables s \<longrightarrow>
            forFields (Suc m) getTable table (field # rest) result s
              = (case getTable (f_tableId sub) of
                   None \<Rightarrow> Some (Inl NotFound, enter table sub s)
                 | Some relatedTable \<Rightarrow>
                     (case forFields m getTable relatedTable
                             (Object_keys (t_schema relatedTable)) [] (enter table sub s) of
                        None \<Rightarrow> None
                      | Some (Inl e, s2) \<Rightarrow> Some (Inl e, s2)
                      | Some (Inr relatedFields, s2) \<Rightarrow>
                          forFields (Suc m) getTable table rest
                            (result @ qualify sub relatedTable relatedFields) s2)))
       \<and> handledTables (enter table sub s)
            = insert (pairKey (f_tableId sub) (t_id table)) (handledTables s)
       \<and> fetches (enter table sub s) = fetches s @ [(t_id table, f_tableId sub)]
       \<and> (\<forall>k root flds out s'.
             traversal k getTable flds root = (out, s') \<longrightarrow>
               noReverseLater (fetches s')
             \<and> (\<forall>e \<in> set (fetches s'). pairKey (snd e) (fst e) \<in> handledTables s')
             \<and> getQueriableFields k getTable flds root
                 = (case out of
                      None \<Rightarrow> None
                    | Some (Inl e) \<Rightarrow> Some (Inl e, fetches s')
                    | Some (Inr extracted) \<Rightarrow> Some (Inr (''_id'' # extracted), fetches s')))"
proof -
  have skipped: "forFields n getTable table (field # rest) result s
                   = forFields n getTable table rest result s"
    if "pairKey (t_id table) (f_tableId sub) \<in> handledTables s"
    using forFields_skip_step [OF sub link that] .
  have entered: "forFields (Suc m) getTable table (field # rest) result s
              = (case getTable (f_tableId sub) of
                   None \<Rightarrow> Some (Inl NotFound, enter table sub s)
                 | Some relatedTable \<Rightarrow>
                     (case forFields m getTable relatedTable
                             (Object_keys (t_schema relatedTable)) [] (enter table sub s) of
                        None \<Rightarrow> None
                      | Some (Inl e, s2) \<Rightarrow> Some (Inl e, s2)
                      | Some (Inr relatedFields, s2) \<Rightarrow>
                          forFields (Suc m) getTable table rest
                            (result @ qualify sub relatedTable relatedFields) s2))"
    if fresh: "pairKey (t_id table) (f_tableId sub) \<notin> handledTables s"
  proof (cases "getTable (f_tableId sub)")
    case None
    with forFields_not_found [where getTable = getTable, OF sub link fresh None]
    show ?thesis by simp
  next
    case (Some relatedTable)
    with forFields_link_step [where getTable = getTable, OF sub link fresh Some]
    show ?thesis by simp
  qed
  have recorded: "handledTables (enter table sub s)
            = insert (pairKey (f_tableId sub) (t_id table)) (handledTables s)"
    "fetches (enter table sub s) = fetches s @ [(t_id table, f_tableId sub)]"
    by (simp_all add: enter_def)
  have global: "noReverseLater (fetches s')
             \<and> (\<forall>e \<in> set (fetches s'). pairKey (snd e) (fst e) \<in> handledTables s')
             \<and> getQueriableFields k getTable flds root
                 = (case out of
                      None \<Rightarrow> None
                    | Some (Inl e) \<Rightarrow> Some (Inl e, fetches s')
                    | Some (Inr extracted) \<Rightarrow> Some (Inr (''_id'' # extracted), fetches s'))"
    if run: "traversal k getTable flds root = (out, s')" for k root flds out s'
  proof -
    from run have "edgesOk \<lparr>handledTables = {t_id root}, fetches = []\<rparr> s'"
      unfolding traversal_def by (rule traverse_edgesOk)
    then have "noReverseLater (fetches s')"
      and "\<forall>e \<in> set (fetches s'). pairKey (snd e) (fst e) \<in> handledTables s'"
      by (auto simp: edgesOk_def)
    moreover have "getQueriableFields k getTable flds root
                 = (case out of
                      None \<Rightarrow> None
                    | Some (Inl e) \<Rightarrow> Some (Inl e, fetches s')
                    | Some (Inr extracted) \<Rightarrow> Some (Inr (''_id'' # extracted), fetches s'))"
      by (simp add: getQueriableFields_traversal run)
    ultimately show ?thesis by blast
  qed
  from skipped entered recorded global show ?thesis by blast
qed

theorem guard_blocks_reverse_edge_witness:
  "traversal 4 tri_getTable [''toB'', ''toC''] tri_A
     = (None, \<lparr>handledTables = {''ta_B_ta_A'', ''ta_A_ta_C'', ''ta_C_ta_B'', ''ta_A''},
               fetches = [(''ta_A'', ''ta_B''), (''ta_B'', ''ta_C''), (''ta_C'', ''ta_A''),
                          (''ta_A'', ''ta_B'')]\<rparr>)
   \<and> noReverseLater [(''ta_A'', ''ta_B''), (''ta_B'', ''ta_C''), (''ta_C'', ''ta_A''),
                       (''ta_A'', ''ta_B'')]
   \<and> traversal 1 self_getTable [''parent'', ''child'', ''s1''] self_S
     = (Some (Inr [''parent.s1'', ''S.s1'', ''s1'']),
        \<lparr>handledTables = {''ta_S_ta_S'', ''ta_S''}, fetches = [(''ta_S'', ''ta_S'')]\<rparr>)
   \<and> getQueriableFields 1 self_getTable [''parent'', ''child'', ''s1''] self_S
     = Some (Inr [''_id'', ''parent.s1'', ''S.s1'', ''s1''], [(''ta_S'', ''ta_S'')])
   \<and> forFields 1 self_getTable self_S [''child'', ''s1''] [''parent.s1'', ''S.s1'']
        \<lparr>handledTables = {''ta_S_ta_S'', ''ta_S''}, fetches = [(''ta_S'', ''ta_S'')]\<rparr>
     = forFields 1 self_getTable self_S [''s1''] [''parent.s1'', ''S.s1'']
        \<lparr>handledTables = {''ta_S_ta_S'', ''ta_S''}, fetches = [(''ta_S'', ''ta_S'')]\<rparr>"
proof -
  let ?sub = "link ''child'' ''ta_S''"
  let ?s = "\<lparr>handledTables = {''ta_S_ta_S'', ''ta_S''}, fetches = [(''ta_S'', ''ta_S'')]\<rparr>"
  have sub: "map_of (t_schema self_S) ''child'' = Some ?sub"
    by (simp add: self_S_def)
  have link: "f_type ?sub = LINK"
    by (simp add: link_def)
  have recorded: "pairKey (t_id self_S) (f_tableId ?sub) \<in> handledTables ?s"
    by (simp add: self_S_def link_def pairKey_def)
  have tri: "traversal 4 tri_getTable [''toB'', ''toC''] tri_A
     = (None, \<lparr>handledTables = {''ta_B_ta_A'', ''ta_A_ta_C'', ''ta_C_ta_B'', ''ta_A''},
               fetches = [(''ta_A'', ''ta_B''), (''ta_B'', ''ta_C''), (''ta_C'', ''ta_A''),
                          (''ta_A'', ''ta_B'')]\<rparr>)"
    by (simp add: traversal_def traverse.simps eval_nat_numeral Object_keys_def
        tri_A_def tri_B_def tri_C_def tri_getTable_def link_def pairKey_def insert_commute)
  have self: "traversal 1 self_getTable [''parent'', ''child'', ''s1''] self_S
     = (Some (Inr [''parent.s1'', ''S.s1'', ''s1'']), ?s)"
    by (simp add: traversal_def traverse.simps Object_keys_def
        self_S_def self_getTable_def link_def plain_def pairKey_def)
  note inst = guard_blocks_reverse_edge [OF sub link,
      of ?s 1 self_getTable "[''s1'']" "[''parent.s1'', ''S.s1'']"]
  from inst recorded have skip: "forFields 1 self_getTable self_S [''child'', ''s1''] [''parent.s1'', ''S.s1''] ?s
     = forFields 1 self_getTable self_S [''s1''] [''parent.s1'', ''S.s1''] ?s"
    by blast
  from guard_blocks_reverse_edge [OF sub link, of ?s 1 tri_getTable "[]" "[]" 0]
  have g: "traversal k tri_getTable flds root = (out, s') \<Longrightarrow> noReverseLater (fetches s')"
    for k root flds out s'
    by blast
  from g [OF tri] have nrl: "noReverseLater [(''ta_A'', ''ta_B''), (''ta_B'', ''ta_C''),
       (''ta_C'', ''ta_A''), (''ta_A'', ''ta_B'')]"
    by simp
  from inst have q: "traversal k self_getTable flds root = (out, s') \<Longrightarrow>
      getQueriableFields k self_getTable flds root
                 = (case out of
                      None \<Rightarrow> None
                    | Some (Inl e) \<Rightarrow> Some (Inl e, fetches s')
                    | Some (Inr extracted) \<Rightarrow> Some (Inr (''_id'' # extracted), fetches s'))"
    for k root flds out s'
    by blast
  from q [OF self] have gq: "getQueriableFields 1 self_getTable [''parent'', ''child'', ''s1''] self_S
     = Some (Inr [''_id'', ''parent.s1'', ''S.s1'', ''s1''], [(''ta_S'', ''ta_S'')])"
    by simp
  from tri nrl self gq skip show ?thesis by blast
qed

text \<open>
  C1 (as stated) fails: a table with two link fields to the same other table recurses
  along the same directed edge twice, since taking the edge records only the opposite key.
\<close>

theorem same_edge_recursed_twice:
  "getQueriableFields 1 dup_getTable [''first'', ''second''] dup_A
     = Some (Inr [''_id'', ''first.x'', ''B.x'', ''second.x'', ''B.x''],
             [(''ta_A'', ''ta_B''), (''ta_A'', ''ta_B'')])
   \<and> \<not> distinct [(''ta_A'', ''ta_B''), (''ta_A'', ''ta_B'')]"
  by (simp add: getQueriableFields_def extractTableFields_def Object_keys_def forFields.simps
        dup_A_def dup_B_def dup_getTable_def link_def plain_def pairKey_def)

lemma expandField_plain:
  "map_of (t_schema A) f = Some sub \<Longrightarrow> f_type sub \<noteq> LINK \<Longrightarrow> expandField A B f = [f]"
  by (simp add: expandField_def)

lemma expandField_link:
  "map_of (t_schema A) f = Some sub \<Longrightarrow> f_type sub = LINK \<Longrightarrow>
     expandField A B f = qualify sub B (plainFields B)"
  by (simp add: expandField_def)

lemma isLinkField_Some:
  "map_of (t_schema A) f = Some sub \<Longrightarrow> isLinkField A f = (f_type sub = LINK)"
  by (simp add: isLinkField_def)

lemma forFields_links_handled:
  assumes "set fs \<subseteq> set (Object_keys (t_schema table))"
    and "\<forall>(k, sub) \<in> set (t_schema table).
           f_type sub = LINK \<longrightarrow> pairKey (t_id table) (f_tableId sub) \<in> handledTables s"
  shows "forFields n getTable table fs result s
           = Some (Inr (result @ filter (\<lambda>f. \<not> isLinkField table f) fs), s)"
  using assms(1)
proof (induction fs arbitrary: result)
  case Nil
  show ?case by (simp add: forFields.simps(1))
next
  case (Cons f fs)
  from Cons.prems obtain sub where sub: "map_of (t_schema table) f = Some sub"
      and mem: "(f, sub) \<in> set (t_schema table)"
    using map_of_Object_keys [of f "t_schema table"] by auto
  from Cons.prems have rest: "set fs \<subseteq> set (Object_keys (t_schema table))" by simp
  show ?case
  proof (cases "f_type sub = LINK")
    case True
    with mem assms(2) have "pairKey (t_id table) (f_tableId sub) \<in> handledTables s" by auto
    from forFields_skip_step [OF sub True this] Cons.IH [OF rest, of result]
    show ?thesis by (simp add: isLinkField_Some [OF sub] True)
  next
    case False
    from forFields_plain_step [OF sub False] Cons.IH [OF rest, of "result @ [f]"]
    show ?thesis by (simp add: isLinkField_Some [OF sub] False)
  qed
qed

lemma forFields_two_table_cycle:
  assumes getB: "getTable (t_id B) = Some B"
    and linksA: "\<forall>(k, sub) \<in> set (t_schema A). f_type sub = LINK \<longrightarrow> f_tableId sub = t_id B"
    and linksB: "\<forall>(k, sub) \<in> set (t_schema B). f_type sub = LINK \<longrightarrow> f_tableId sub = t_id A"
    and keys: "pairKey (t_id A) (t_id B) \<noteq> pairKey (t_id B) (t_id A)"
    and fs: "set fs \<subseteq> set (Object_keys (t_schema A))"
    and fresh: "pairKey (t_id A) (t_id B) \<notin> handledTables s"
  shows "\<exists>s'. forFields (Suc n) getTable A fs result s
                 = Some (Inr (result @ concat (map (expandField A B) fs)), s')
              \<and> fetches s' = fetches s @ replicate (length (filter (isLinkField A) fs)) (t_id A, t_id B)"
  using fs fresh
proof (induction fs arbitrary: result s)
  case Nil
  show ?case by (simp add: forFields.simps(1))
next
  case (Cons f fs)
  from Cons.prems(1) obtain sub where sub: "map_of (t_schema A) f = Some sub"
      and mem: "(f, sub) \<in> set (t_schema A)"
    using map_of_Object_keys [of f "t_schema A"] by auto
  from Cons.prems(1) have rest: "set fs \<subseteq> set (Object_keys (t_schema A))" by simp
  show ?case
  proof (cases "f_type sub = LINK")
    case False
    from Cons.IH [OF rest Cons.prems(2), of "result @ [f]"] obtain s' where
      "forFields (Suc n) getTable A fs (result @ [f]) s
         = Some (Inr ((result @ [f]) @ concat (map (expandField A B) fs)), s')"
      "fetches s' = fetches s @ replicate (length (filter (isLinkField A) fs)) (t_id A, t_id B)"
      by blast
    with forFields_plain_step [OF sub False, of "Suc n" getTable fs result s]
    show ?thesis
      by (simp add: expandField_plain [OF sub False] isLinkField_Some [OF sub] False)
  next
    case True
    from mem True linksA have target: "f_tableId sub = t_id B" by auto
    let ?s1 = "enter A sub s"
    have fresh0: "pairKey (t_id A) (f_tableId sub) \<notin> handledTables s"
      using Cons.prems(2) target by simp
    have getB': "getTable (f_tableId sub) = Some B" using getB target by simp
    have handled: "\<forall>(k, sub') \<in> set (t_schema B).
           f_type sub' = LINK \<longrightarrow> pairKey (t_id B) (f_tableId sub') \<in> handledTables ?s1"
      using linksB target by (auto simp: enter_def)
    have inner: "forFields n getTable B (Object_keys (t_schema B)) [] ?s1
                   = Some (Inr (plainFields B), ?s1)"
      using forFields_links_handled [OF subset_refl handled, of n getTable "[]"]
      by (simp add: plainFields_def)
    have fresh1: "pairKey (t_id A) (t_id B) \<notin> handledTables ?s1"
      using Cons.prems(2) keys target by (simp add: enter_def)
    from Cons.IH [OF rest fresh1, of "result @ qualify sub B (plainFields B)"] obtain s' where
      outer: "forFields (Suc n) getTable A fs (result @ qualify sub B (plainFields B)) ?s1
         = Some (Inr ((result @ qualify sub B (plainFields B)) @ concat (map (expandField A B) fs)), s')"
      and log: "fetches s' = fetches ?s1 @ replicate (length (filter (isLinkField A) fs)) (t_id A, t_id B)"
      by blast
    have "forFields (Suc n) getTable A (f # fs) result s
            = Some (Inr (result @ concat (map (expandField A B) (f # fs))), s')"
      using forFields_link_step [where getTable = getTable, OF sub True fresh0 getB', of n fs result]
        inner outer
      by (simp add: expandField_link [OF sub True])
    moreover have "fetches s' = fetches s @ replicate (length (filter (isLinkField A) (f # fs))) (t_id A, t_id B)"
      using log target by (simp add: enter_def isLinkField_Some [OF sub] True replicate_append_same)
    ultimately show ?thesis by blast
  qed
qed

text \<open>
  C3. Two tables \<open>A\<close> and \<open>B\<close>, every link field of \<open>A\<close> pointing to \<open>B\<close> and every
  link field of \<open>B\<close> pointing back to \<open>A\<close>, the two guard keys being different strings.
  With one unit of fuel or more \<^verbatim>\<open>getQueriableFields\<close> on \<open>A\<close> returns: \<open>_id\<close>, then
  for each requested schema key of \<open>A\<close> in schema order either the key itself (plain
  field) or the non-link keys of \<open>B\<close> prefixed by the link's name followed by the same
  keys prefixed by \<open>B\<close>'s name. Each requested link of \<open>A\<close> thus contributes both
  spellings of every first-level plain field of \<open>B\<close>; the only recursions are from \<open>A\<close>
  into \<open>B\<close>, never from \<open>B\<close> back into \<open>A\<close>, and nothing else is in the result.
\<close>

theorem getQueriableFields_two_table_cycle:
  assumes getB: "getTable (t_id B) = Some B"
    and linksA: "\<forall>(k, sub) \<in> set (t_schema A). f_type sub = LINK \<longrightarrow> f_tableId sub = t_id B"
    and linksB: "\<forall>(k, sub) \<in> set (t_schema B). f_type sub = LINK \<longrightarrow> f_tableId sub = t_id A"
    and keys: "pairKey (t_id A) (t_id B) \<noteq> pairKey (t_id B) (t_id A)"
  shows "\<exists>res log.
     getQueriableFields (Suc n) getTable flds A = Some (Inr res, log)
     \<and> res = ''_id'' # concat (map (expandField A B)
                 (filter (\<lambda>f. f \<in> set flds) (Object_keys (t_schema A))))
     \<and> (\<forall>l sub g. l \<in> set flds \<and> map_of (t_schema A) l = Some sub \<and> f_type sub = LINK
                   \<and> g \<in> set (plainFields B)
           \<longrightarrow> f_name sub @ ''.'' @ g \<in> set res \<and> t_name B @ ''.'' @ g \<in> set res)
     \<and> set log \<subseteq> {(t_id A, t_id B)} \<and> (t_id B, t_id A) \<notin> set log"
proof -
  let ?fs = "filter (\<lambda>f. f \<in> set flds) (Object_keys (t_schema A))"
  let ?s0 = "\<lparr>handledTables = {t_id A}, fetches = []\<rparr>"
  have fresh: "pairKey (t_id A) (t_id B) \<notin> handledTables ?s0"
    by (simp add: pairKey_def)
  have sub: "set ?fs \<subseteq> set (Object_keys (t_schema A))" by auto
  from forFields_two_table_cycle [where getTable = getTable, OF getB linksA linksB keys sub fresh, of n "[]"]
  obtain s' where run: "forFields (Suc n) getTable A ?fs [] ?s0
                          = Some (Inr (concat (map (expandField A B) ?fs)), s')"
    and log: "fetches s' = replicate (length (filter (isLinkField A) ?fs)) (t_id A, t_id B)"
    by auto
  let ?res = "''_id'' # concat (map (expandField A B) ?fs)"
  have q: "getQueriableFields (Suc n) getTable flds A = Some (Inr ?res, fetches s')"
    using run by (simp add: getQueriableFields_def extractTableFields_def)
  have ne: "t_id A \<noteq> t_id B" using keys by auto
  have members: "f_name sub @ ''.'' @ g \<in> set ?res \<and> t_name B @ ''.'' @ g \<in> set ?res"
    if "l \<in> set flds" "map_of (t_schema A) l = Some sub" "f_type sub = LINK"
       "g \<in> set (plainFields B)" for l sub g
  proof -
    from that(2) have "l \<in> set (Object_keys (t_schema A))"
      by (auto simp: Object_keys_def dest: map_of_SomeD intro: rev_image_eqI)
    with that(1) have "l \<in> set ?fs" by simp
    moreover have "expandField A B l = qualify sub B (plainFields B)"
      using that(2,3) by (rule expandField_link)
    moreover have "f_name sub @ ''.'' @ g \<in> set (qualify sub B (plainFields B))"
      "t_name B @ ''.'' @ g \<in> set (qualify sub B (plainFields B))"
      using that(4) unfolding qualify_def by auto
    ultimately show ?thesis by auto
  qed
  have "set (fetches s') \<subseteq> {(t_id A, t_id B)} \<and> (t_id B, t_id A) \<notin> set (fetches s')"
    using log ne by auto
  with q members show ?thesis by blast
qed

theorem getQueriableFields_two_table_cycle_witness:
  "\<exists>res log.
     getQueriableFields (Suc 0) cyc_getTable [''a1'', ''bs''] cyc_A = Some (Inr res, log)
     \<and> res = [''_id'', ''a1'', ''bs.b1'', ''bs.b2'', ''B.b1'', ''B.b2'']
     \<and> ''bs.b1'' \<in> set res \<and> ''B.b1'' \<in> set res \<and> ''bs.b2'' \<in> set res \<and> ''B.b2'' \<in> set res
     \<and> (''ta_B'', ''ta_A'') \<notin> set log"
proof -
  have getB: "cyc_getTable (t_id cyc_B) = Some cyc_B"
    by (simp add: cyc_getTable_def cyc_B_def)
  have linksA: "\<forall>(k, sub) \<in> set (t_schema cyc_A). f_type sub = LINK \<longrightarrow> f_tableId sub = t_id cyc_B"
    by (simp add: cyc_A_def cyc_B_def link_def plain_def)
  have linksB: "\<forall>(k, sub) \<in> set (t_schema cyc_B). f_type sub = LINK \<longrightarrow> f_tableId sub = t_id cyc_A"
    by (simp add: cyc_A_def cyc_B_def link_def plain_def)
  have keys: "pairKey (t_id cyc_A) (t_id cyc_B) \<noteq> pairKey (t_id cyc_B) (t_id cyc_A)"
    by (simp add: cyc_A_def cyc_B_def pairKey_def)
  from getQueriableFields_two_table_cycle [where getTable = cyc_getTable,
      OF getB linksA linksB keys, of 0 "[''a1'', ''bs'']"]
  obtain res log where
    run: "getQueriableFields (Suc 0) cyc_getTable [''a1'', ''bs''] cyc_A = Some (Inr res, log)"
    and res: "res = ''_id'' # concat (map (expandField cyc_A cyc_B)
                 (filter (\<lambda>f. f \<in> set [''a1'', ''bs'']) (Object_keys (t_schema cyc_A))))"
    and log: "set log \<subseteq> {(t_id cyc_A, t_id cyc_B)}"
    by blast
  have "res = [''_id'', ''a1'', ''bs.b1'', ''bs.b2'', ''B.b1'', ''B.b2'']"
    unfolding res
    by (simp add: expandField_def qualify_def plainFields_def isLinkField_def Object_keys_def
        cyc_A_def cyc_B_def link_def plain_def)
  moreover have "(''ta_B'', ''ta_A'') \<notin> set log"
    using log by (auto simp: cyc_A_def cyc_B_def)
  ultimately show ?thesis using run by simp
qed

text \<open>
  C6. Whenever the loop reaches a link field whose guard key is not yet recorded, and the
  related table resolves, the recursive call is made with the complete key list of the
  related table's schema as allowed fields (so every key of that schema is walked,
  whatever the top-level request listed), and its result is appended twice: each related
  path prefixed by the field's \<^verbatim>\<open>name\<close> and a dot, then each prefixed by the related
  table's \<^verbatim>\<open>name\<close> and a dot. Both blocks are part of every list the loop finally
  returns.
\<close>

theorem link_field_added_twice:
  assumes sub: "map_of (t_schema table) field = Some sub"
    and link: "f_type sub = LINK"
    and fresh: "pairKey (t_id table) (f_tableId sub) \<notin> handledTables s"
    and related: "getTable (f_tableId sub) = Some relatedTable"
    and inner: "extractTableFields m getTable relatedTable (Object_keys (t_schema relatedTable))
                  (enter table sub s) = Some (Inr relatedFields, s2)"
  shows "forFields (Suc m) getTable table (field # rest) result s
           = forFields (Suc m) getTable table rest
               (result @ map (\<lambda>f. f_name sub @ ''.'' @ f) relatedFields
                       @ map (\<lambda>f. t_name relatedTable @ ''.'' @ f) relatedFields) s2
         \<and> extractTableFields m getTable relatedTable (Object_keys (t_schema relatedTable))
               (enter table sub s)
             = forFields m getTable relatedTable (Object_keys (t_schema relatedTable)) []
                 (enter table sub s)
         \<and> (\<forall>out s'. forFields (Suc m) getTable table (field # rest) result s = Some (Inr out, s')
               \<longrightarrow> (\<exists>post. out = result @ map (\<lambda>f. f_name sub @ ''.'' @ f) relatedFields
                                     @ map (\<lambda>f. t_name relatedTable @ ''.'' @ f) relatedFields
                                     @ post))"
proof -
  have all_keys: "extractTableFields m getTable relatedTable (Object_keys (t_schema relatedTable))
               (enter table sub s)
             = forFields m getTable relatedTable (Object_keys (t_schema relatedTable)) []
                 (enter table sub s)"
    by (simp add: extractTableFields_def)
  with inner have inner': "forFields m getTable relatedTable (Object_keys (t_schema relatedTable)) []
                 (enter table sub s) = Some (Inr relatedFields, s2)"
    by simp
  have step: "forFields (Suc m) getTable table (field # rest) result s
           = forFields (Suc m) getTable table rest
               (result @ map (\<lambda>f. f_name sub @ ''.'' @ f) relatedFields
                       @ map (\<lambda>f. t_name relatedTable @ ''.'' @ f) relatedFields) s2"
    using forFields_link_step [where getTable = getTable, OF sub link fresh related, of m rest result]
      inner'
    by (simp add: qualify_def)
  have "\<exists>post. out = result @ map (\<lambda>f. f_name sub @ ''.'' @ f) relatedFields
                                     @ map (\<lambda>f. t_name relatedTable @ ''.'' @ f) relatedFields
                                     @ post"
    if "forFields (Suc m) getTable table (field # rest) result s = Some (Inr out, s')" for out s'
  proof -
    from that step have "forFields (Suc m) getTable table rest
               (result @ map (\<lambda>f. f_name sub @ ''.'' @ f) relatedFields
                       @ map (\<lambda>f. t_name relatedTable @ ''.'' @ f) relatedFields) s2
              = Some (Inr out, s')"
      by simp
    from forFields_result_prefix [OF this] show ?thesis by auto
  qed
  with step all_keys show ?thesis by blast
qed

theorem link_field_added_twice_witness:
  "forFields (Suc 0) cyc_getTable cyc_A [''bs''] [''a1''] \<lparr>handledTables = {''ta_A''}, fetches = []\<rparr>
     = Some (Inr [''a1'', ''bs.b1'', ''bs.b2'', ''B.b1'', ''B.b2''],
             \<lparr>handledTables = {''ta_B_ta_A'', ''ta_A''}, fetches = [(''ta_A'', ''ta_B'')]\<rparr>)"
proof -
  let ?s = "\<lparr>handledTables = {''ta_A''}, fetches = []\<rparr>"
  let ?sub = "link ''bs'' ''ta_B''"
  let ?s2 = "\<lparr>handledTables = {''ta_B_ta_A'', ''ta_A''}, fetches = [(''ta_A'', ''ta_B'')]\<rparr>"
  have sub: "map_of (t_schema cyc_A) ''bs'' = Some ?sub"
    by (simp add: cyc_A_def)
  have link: "f_type ?sub = LINK"
    by (simp add: link_def)
  have fresh: "pairKey (t_id cyc_A) (f_tableId ?sub) \<notin> handledTables ?s"
    by (simp add: cyc_A_def link_def pairKey_def)
  have related: "cyc_getTable (f_tableId ?sub) = Some cyc_B"
    by (simp add: cyc_getTable_def link_def)
  have inner: "extractTableFields 0 cyc_getTable cyc_B (Object_keys (t_schema cyc_B))
                  (enter cyc_A ?sub ?s) = Some (Inr [''b1'', ''b2''], ?s2)"
    by (simp add: extractTableFields_def enter_def Object_keys_def forFields.simps
        cyc_A_def cyc_B_def link_def plain_def pairKey_def)
  from link_field_added_twice [where getTable = cyc_getTable, OF sub link fresh related inner,
      of "[]" "[''a1'']"]
  show ?thesis
    by (simp add: forFields.simps(1) link_def cyc_B_def)
qed

lemma triangle_never_returns:
  "(\<forall>s res. tri_open s \<longrightarrow> forFields n tri_getTable tri_A [''toB'', ''toC''] res s = None)
   \<and> (\<forall>s res. tri_open s \<and> ''ta_B_ta_A'' \<in> handledTables s
         \<longrightarrow> forFields n tri_getTable tri_B [''toA'', ''toC''] res s = None)
   \<and> (\<forall>s res. tri_open s \<longrightarrow> forFields n tri_getTable tri_C [''toA'', ''toB''] res s = None)"
proof (induction n)
  case 0
  show ?case
    by (simp add: tri_open_def tri_A_def tri_B_def tri_C_def link_def pairKey_def forFields.simps)
next
  case (Suc n)
  then show ?case
    by (simp add: tri_open_def tri_A_def tri_B_def tri_C_def link_def pairKey_def
        tri_getTable_def Object_keys_def forFields.simps)
qed

text \<open>
  C2. Three tables linked pairwise in both directions. The guard tests the key of the
  edge about to be taken but records the key of the opposite edge, so walking
  \<open>A \<rightarrow> B \<rightarrow> C \<rightarrow> A\<close> never meets a recorded key: whatever the fuel, the expansion
  started on \<open>A\<close> runs out of it. With \<open>forFields_fuel_mono\<close> (a run that returns
  keeps returning the same with more fuel), no recursion depth suffices: the source
  recurses without end on this schema.
\<close>

theorem getQueriableFields_triangle_diverges:
  "getQueriableFields n tri_getTable [''toB'', ''toC''] tri_A = None"
  using triangle_never_returns [of n]
  by (simp add: getQueriableFields_def extractTableFields_def tri_open_def Object_keys_def tri_A_def)

section \<open>When the expansion returns\<close>





section \<open>Properties of search and of the routing\<close>

text \<open>
  C4. When the cleaned filter tree has no active condition and its empty-filter policy is
  \<open>RETURN_NONE\<close>, \<^verbatim>\<open>search\<close> returns the response with no rows and has made no call:
  no table fetch, no field expansion (whatever the fuel) and no executor.
\<close>

theorem search_empty_filter_returns_none:
  assumes "\<not> hasFilters deps (cleanedQuery deps options)"
    and "onEmptyFilter (cleanedQuery deps options) = Some RETURN_NONE"
  shows "search n deps options
           = Some ([], Inr \<lparr>rows = [], r_bookmark = None, r_hasNextPage = None, r_totalRows = None\<rparr>)"
  using assms by (simp add: search_def)

theorem search_empty_filter_returns_none_witness:
  "search 0 (demo_deps True) (demo_request (Some \<lparr>onEmptyFilter = Some RETURN_NONE, operators = []\<rparr>))
     = Some ([], Inr \<lparr>rows = [], r_bookmark = None, r_hasNextPage = None, r_totalRows = None\<rparr>)"
proof -
  let ?q = "\<lparr>onEmptyFilter = Some RETURN_NONE, operators = []\<rparr>"
  have q: "cleanedQuery (demo_deps True) (demo_request (Some ?q)) = ?q"
    by (simp add: cleanedQuery_def demo_deps_def demo_request_def)
  have 1: "\<not> hasFilters (demo_deps True) (cleanedQuery (demo_deps True) (demo_request (Some ?q)))"
    unfolding q by (simp add: demo_deps_def)
  have 2: "onEmptyFilter (cleanedQuery (demo_deps True) (demo_request (Some ?q))) = Some RETURN_NONE"
    unfolding q by simp
  from search_empty_filter_returns_none [OF 1 2, of 0] show ?thesis .
qed

lemma executorCalls_fetches:
  "executorCalls (GetTable t # map (\<lambda>e. GetTable (snd e)) fetched) = []"
  by (induction fetched) (simp_all add: executorCalls_def)

lemma executorCalls_append:
  "executorCalls (xs @ ys) = executorCalls xs @ executorCalls ys"
  by (simp add: executorCalls_def)

lemma search_returning_run:
  assumes "search n deps options = Some (calls, res)"
  shows "(\<exists>options' table.
            executorCalls calls
              = [Search (spec_select (isExternalTableID deps (p_tableId options))
                                     (isSqsEnabledForTenant deps)) options' table]
            \<and> last calls = Search (spec_select (isExternalTableID deps (p_tableId options))
                                     (isSqsEnabledForTenant deps)) options' table
            \<and> res = runSearch deps (spec_select (isExternalTableID deps (p_tableId options))
                                     (isSqsEnabledForTenant deps)) options' table)
         \<or> (executorCalls calls = [] \<and>
              ((\<exists>e. res = Inl e) \<or>
               (calls = [] \<and> \<not> hasFilters deps (cleanedQuery deps options)
                  \<and> onEmptyFilter (cleanedQuery deps options) = Some RETURN_NONE)))"
proof (cases "\<not> hasFilters deps (cleanedQuery deps options)
                \<and> onEmptyFilter (cleanedQuery deps options) = Some RETURN_NONE")
  case True
  with assms show ?thesis
    by (auto simp: search_def executorCalls_def)
next
  case False
  note active = False
  show ?thesis
  proof (cases "tables_getTable deps (p_tableId options)")
    case None
    with assms active show ?thesis
      by (auto simp: search_def executorCalls_def)
  next
    case (Some table)
    let ?o3 = "mappedOptions deps options table"
    show ?thesis
    proof (cases "getQueriableFields n (tables_getTable deps) (selectedFields deps ?o3 table) table")
      case None
      with assms active Some show ?thesis
        by (auto simp: search_def Let_def)
    next
      case outcome: (Some x)
      obtain r fetched where x: "x = (r, fetched)" by (cases x)
      show ?thesis
      proof (cases r)
        case (Inl e)
        with assms active Some outcome x show ?thesis
          by (auto simp: search_def Let_def executorCalls_fetches)
      next
        case (Inr queriable)
        with assms active Some outcome x show ?thesis
          by (auto simp: search_def Let_def executorCalls_fetches executorCalls_append
              spec_select_def runSearch_def executorCalls_def)
      qed
    qed
  qed
qed

text \<open>
  C5. When the request is not short-circuited, the table resolves and the field expansion
  returns its list, \<^verbatim>\<open>search\<close> returns, and its calls are the table fetches followed
  by exactly one executor call: to the executor the selection policy names for the pair
  (is the requested table id external, is the structured-query engine enabled for the
  tenant), with the prepared request and the table. The outcome of \<^verbatim>\<open>search\<close> is that
  executor's outcome, a failure included, and no other executor is called. Moreover in
  every run that returns, whatever the input, at most one executor is called, it is the
  one the policy names, and a run without an executor call ends in a failure or in the
  short-circuit response.
\<close>

theorem search_dispatch:
  assumes active: "hasFilters deps (cleanedQuery deps options)
                     \<or> onEmptyFilter (cleanedQuery deps options) \<noteq> Some RETURN_NONE"
    and resolved: "tables_getTable deps (p_tableId options) = Some table"
    and expanded: "getQueriableFields n (tables_getTable deps)
                     (selectedFields deps (mappedOptions deps options table) table) table
                   = Some (Inr queriable, fetched)"
  shows "search n deps options
           = Some (GetTable (p_tableId options) # map (\<lambda>e. GetTable (snd e)) fetched
                     @ [Search (spec_select (isExternalTableID deps (p_tableId options))
                                            (isSqsEnabledForTenant deps))
                          (handedOptions deps options table queriable) table],
                   runSearch deps (spec_select (isExternalTableID deps (p_tableId options))
                                               (isSqsEnabledForTenant deps))
                     (handedOptions deps options table queriable) table)
         \<and> executorCalls (GetTable (p_tableId options) # map (\<lambda>e. GetTable (snd e)) fetched
                     @ [Search (spec_select (isExternalTableID deps (p_tableId options))
                                            (isSqsEnabledForTenant deps))
                          (handedOptions deps options table queriable) table])
             = [Search (spec_select (isExternalTableID deps (p_tableId options))
                                    (isSqsEnabledForTenant deps))
                  (handedOptions deps options table queriable) table]
         \<and> (\<forall>n' calls res. search n' deps options = Some (calls, res) \<longrightarrow>
               (\<exists>options' table'.
                  executorCalls calls
                    = [Search (spec_select (isExternalTableID deps (p_tableId options))
                                           (isSqsEnabledForTenant deps)) options' table']
                  \<and> last calls = Search (spec_select (isExternalTableID deps (p_tableId options))
                                           (isSqsEnabledForTenant deps)) options' table'
                  \<and> res = runSearch deps (spec_select (isExternalTableID deps (p_tableId options))
                                           (isSqsEnabledForTenant deps)) options' table')
               \<or> (executorCalls calls = [] \<and>
                    ((\<exists>e. res = Inl e) \<or>
                     (calls = [] \<and> \<not> hasFilters deps (cleanedQuery deps options)
                        \<and> onEmptyFilter (cleanedQuery deps options) = Some RETURN_NONE))))"
proof -
  have run: "search n deps options
           = Some (GetTable (p_tableId options) # map (\<lambda>e. GetTable (snd e)) fetched
                     @ [Search (spec_select (isExternalTableID deps (p_tableId options))
                                            (isSqsEnabledForTenant deps))
                          (handedOptions deps options table queriable) table],
                   runSearch deps (spec_select (isExternalTableID deps (p_tableId options))
                                               (isSqsEnabledForTenant deps))
                     (handedOptions deps options table queriable) table)"
    using active resolved expanded
    by (auto simp: search_def Let_def spec_select_def runSearch_def handedOptions_def)
  have one: "executorCalls (GetTable (p_tableId options) # map (\<lambda>e. GetTable (snd e)) fetched
                     @ [Search (spec_select (isExternalTableID deps (p_tableId options))
                                            (isSqsEnabledForTenant deps))
                          (handedOptions deps options table queriable) table])
             = [Search (spec_select (isExternalTableID deps (p_tableId options))
                                    (isSqsEnabledForTenant deps))
                  (handedOptions deps options table queriable) table]"
    using executorCalls_fetches [of "p_tableId options" fetched]
    by (simp add: executorCalls_def)
  from run one search_returning_run show ?thesis by blast
qed

theorem search_dispatch_witness:
  "search 0 (demo_deps False) (demo_request None)
     = Some ([GetTable ''ta_people'',
              Search Lucene (handedOptions (demo_deps False) (demo_request None) demo_people [''_id'', ''name''])
                demo_people],
             Inr \<lparr>rows = [[(''engine'', JStr ''lucene'')]], r_bookmark = None,
                  r_hasNextPage = None, r_totalRows = None\<rparr>)
   \<and> search 0 (demo_deps True) (demo_request None)
     = Some ([GetTable ''ta_people'',
              Search Sqs (handedOptions (demo_deps True) (demo_request None) demo_people [''_id'', ''name''])
                demo_people],
             Inr \<lparr>rows = [[(''engine'', JStr ''sqs'')]], r_bookmark = None,
                  r_hasNextPage = None, r_totalRows = None\<rparr>)
   \<and> search 0 (demo_deps True) demo_external_request
     = Some ([GetTable ''datasource_plus_pg__customers'',
              Search External
                (handedOptions (demo_deps True) demo_external_request demo_customers [''_id'', ''email''])
                demo_customers],
             Inl (BackendFailure ''connection refused''))"
proof -
  have active: "hasFilters (demo_deps b) (cleanedQuery (demo_deps b) r)
                  \<or> onEmptyFilter (cleanedQuery (demo_deps b) r) \<noteq> Some RETURN_NONE"
    if "p_query r = None" for b r
    using that by (simp add: cleanedQuery_def demo_deps_def)
  have people: "tables_getTable (demo_deps b) (p_tableId (demo_request None)) = Some demo_people" for b
    by (simp add: demo_deps_def demo_request_def)
  have customers: "tables_getTable (demo_deps b) (p_tableId demo_external_request) = Some demo_customers" for b
    by (simp add: demo_deps_def demo_request_def demo_external_request_def)
  have fields_people: "getQueriableFields 0 (tables_getTable (demo_deps b))
          (selectedFields (demo_deps b) (mappedOptions (demo_deps b) (demo_request None) demo_people)
             demo_people) demo_people
        = Some (Inr [''_id'', ''name''], [])" for b
    by (simp add: demo_deps_def demo_request_def cleanedQuery_def mappedOptions_def
        selectedFields_def demo_people_def plain_def Object_keys_def getQueriableFields_def
        extractTableFields_def forFields.simps)
  have fields_customers: "getQueriableFields 0 (tables_getTable (demo_deps b))
          (selectedFields (demo_deps b) (mappedOptions (demo_deps b) demo_external_request demo_customers)
             demo_customers) demo_customers
        = Some (Inr [''_id'', ''email''], [])" for b
    by (simp add: demo_deps_def demo_request_def demo_external_request_def cleanedQuery_def
        mappedOptions_def selectedFields_def demo_customers_def plain_def Object_keys_def
        getQueriableFields_def extractTableFields_def forFields.simps)
  have q: "p_query (demo_request None) = None" "p_query demo_external_request = None"
    by (simp_all add: demo_request_def demo_external_request_def)
  from search_dispatch [OF active [OF q(1)] people fields_people, of False]
  have lucene: "search 0 (demo_deps False) (demo_request None)
     = Some ([GetTable ''ta_people'',
              Search Lucene (handedOptions (demo_deps False) (demo_request None) demo_people [''_id'', ''name''])
                demo_people],
             Inr \<lparr>rows = [[(''engine'', JStr ''lucene'')]], r_bookmark = None,
                  r_hasNextPage = None, r_totalRows = None\<rparr>)"
    by (simp add: spec_select_def runSearch_def demo_deps_def demo_request_def)
  from search_dispatch [OF active [OF q(1)] people fields_people, of True]
  have sqs: "search 0 (demo_deps True) (demo_request None)
     = Some ([GetTable ''ta_people'',
              Search Sqs (handedOptions (demo_deps True) (demo_request None) demo_people [''_id'', ''name''])
                demo_people],
             Inr \<lparr>rows = [[(''engine'', JStr ''sqs'')]], r_bookmark = None,
                  r_hasNextPage = None, r_totalRows = None\<rparr>)"
    by (simp add: spec_select_def runSearch_def demo_deps_def demo_request_def)
  from search_dispatch [OF active [OF q(2)] customers fields_customers, of True]
  have ext: "search 0 (demo_deps True) demo_external_request
     = Some ([GetTable ''datasource_plus_pg__customers'',
              Search External
                (handedOptions (demo_deps True) demo_external_request demo_customers [''_id'', ''email''])
                demo_customers],
             Inl (BackendFailure ''connection refused''))"
    by (simp add: spec_select_def runSearch_def demo_deps_def demo_request_def
        demo_external_request_def)
  from lucene sqs ext show ?thesis by simp
qed

text \<open>
  C9. \<^verbatim>\<open>exportRows\<close>, \<^verbatim>\<open>fetch\<close>, \<^verbatim>\<open>fetchRaw\<close> and \<^verbatim>\<open>fetchView\<close> call the
  operation of the external backend when the table id is external and of the internal
  backend otherwise, and return its outcome. The tenant's feature flag, the table
  store and the three search executors have no influence on them, and no field expansion
  takes place.
\<close>

theorem routing_by_table_locality:
  "exportRows deps xo
     = (if isExternalTableID deps (x_tableId xo) then b_exportRows (external deps) xo
        else b_exportRows (internal deps) xo)
   \<and> fetch deps tableId
     = (if isExternalTableID deps tableId then b_fetch (external deps) tableId
        else b_fetch (internal deps) tableId)
   \<and> fetchRaw deps tableId
     = (if isExternalTableID deps tableId then b_fetchRaw (external deps) tableId
        else b_fetchRaw (internal deps) tableId)
   \<and> fetchView deps tableId viewName params
     = (if isExternalTableID deps tableId then b_fetchView (external deps) viewName params
        else b_fetchView (internal deps) viewName params)
   \<and> exportRows (deps\<lparr>isSqsEnabledForTenant := flag, tables_getTable := store, external_search := ex,
                      internal_sqs_search := sq, internal_lucene_search := lu\<rparr>) xo
     = exportRows deps xo
   \<and> fetch (deps\<lparr>isSqsEnabledForTenant := flag, tables_getTable := store, external_search := ex,
                 internal_sqs_search := sq, internal_lucene_search := lu\<rparr>) tableId
     = fetch deps tableId
   \<and> fetchRaw (deps\<lparr>isSqsEnabledForTenant := flag, tables_getTable := store, external_search := ex,
                    internal_sqs_search := sq, internal_lucene_search := lu\<rparr>) tableId
     = fetchRaw deps tableId
   \<and> fetchView (deps\<lparr>isSqsEnabledForTenant := flag, tables_getTable := store, external_search := ex,
                     internal_sqs_search := sq, internal_lucene_search := lu\<rparr>) tableId viewName params
     = fetchView deps tableId viewName params"
  by (simp add: exportRows_def fetch_def fetchRaw_def fetchView_def pickApi_def)

section \<open>Properties of the document wrapper\<close>

lemma put_outcome:
  "put dbPut clock k d options
     = (let created = truthy (getProp d ''createdAt'');
            d2 = (if created then d else d(''createdAt'' \<mapsto> JStr (clock k)))
                   (''updatedAt'' \<mapsto> JStr (clock (if created then k else Suc k)))
        in (dbPut d2 (case options of None \<Rightarrow> [] | Some given \<Rightarrow> given), d2,
            if created then Suc k else Suc (Suc k)))"
  by (simp add: put_def Let_def)

text \<open>
  C10 (as the code has it). For a handle that \<^verbatim>\<open>getPouchDB\<close> returns, \<^verbatim>\<open>put\<close> hands
  the underlying store's \<^verbatim>\<open>put\<close> a document whose \<open>updatedAt\<close> is the timestamp just
  read; whose \<open>createdAt\<close> is the one of the given document when that is truthy, and a
  timestamp just read otherwise (property missing, or \<^verbatim>\<open>undefined\<close>, \<^verbatim>\<open>null\<close>,
  \<^verbatim>\<open>false\<close>, \<^verbatim>\<open>0\<close>, \<^verbatim>\<open>NaN\<close> or the empty string); and whose other properties
  are those of the given document.
\<close>

theorem getPouchDB_put_stamps:
  assumes "getPouchDB env st dbName opts = (Inr db, st')"
  shows "\<exists>construct d'.
           Pouch st = Some construct
         \<and> db_put db clock k d options
             = (raw_put (construct dbName opts) d' (case options of None \<Rightarrow> [] | Some given \<Rightarrow> given),
                d', if truthy (getProp d ''createdAt'') then Suc k else Suc (Suc k))
         \<and> d' ''updatedAt''
             = Some (JStr (clock (if truthy (getProp d ''createdAt'') then k else Suc k)))
         \<and> d' ''createdAt''
             = (if truthy (getProp d ''createdAt'') then d ''createdAt'' else Some (JStr (clock k)))
         \<and> (\<forall>key. key \<noteq> ''createdAt'' \<and> key \<noteq> ''updatedAt'' \<longrightarrow> d' key = d key)"
proof -
  from assms obtain construct where c: "Pouch st = Some construct"
    and db: "db = \<lparr>db_name = raw_name (construct dbName opts),
                   db_put = put (raw_put (construct dbName opts))\<rparr>"
    by (auto simp: getPouchDB_def Let_def split: if_splits option.splits)
  let ?created = "truthy (getProp d ''createdAt'')"
  let ?d' = "(if ?created then d else d(''createdAt'' \<mapsto> JStr (clock k)))
                   (''updatedAt'' \<mapsto> JStr (clock (if ?created then k else Suc k)))"
  have run: "db_put db clock k d options
             = (raw_put (construct dbName opts) ?d' (case options of None \<Rightarrow> [] | Some given \<Rightarrow> given),
                ?d', if ?created then Suc k else Suc (Suc k))"
    unfolding db by (simp add: put_outcome Let_def)
  have upd: "?d' ''updatedAt'' = Some (JStr (clock (if ?created then k else Suc k)))"
    by simp
  have cre: "?d' ''createdAt'' = (if ?created then d ''createdAt'' else Some (JStr (clock k)))"
    by simp
  have others: "\<forall>key. key \<noteq> ''createdAt'' \<and> key \<noteq> ''updatedAt'' \<longrightarrow> ?d' key = d key"
    by simp
  from c run upd cre others show ?thesis by blast
qed

theorem getPouchDB_put_stamps_witness:
  "\<exists>d'. fst (snd (put (\<lambda>d given. (d, given)) demo_clock 0 (demo_doc (JStr ''2023-12-31T09:00:00.000Z'')) None)) = d'
       \<and> d' ''createdAt'' = Some (JStr ''2023-12-31T09:00:00.000Z'')
       \<and> d' ''updatedAt'' = Some (JStr ''2024-05-01T10:00:00.000Z'')
       \<and> d' ''_id'' = Some (JStr ''ro_1'')"
proof -
  let ?raw = "\<lparr>raw_name = ''app_dev'', raw_put = (\<lambda>d given. (d, given :: Row))\<rparr>"
  let ?db = "\<lparr>db_name = ''app_dev'', db_put = put (raw_put ?raw)\<rparr>"
  let ?d = "demo_doc (JStr ''2023-12-31T09:00:00.000Z'')"
  have handle: "getPouchDB demo_env demo_module ''app_dev'' None = (Inr ?db, demo_module)"
    by (simp add: getPouchDB_def demo_env_def demo_module_def)
  from getPouchDB_put_stamps [OF handle, of demo_clock 0 ?d None]
  obtain construct d' where
    c: "Pouch demo_module = Some construct"
    and run: "db_put ?db demo_clock 0 ?d None
                = (raw_put (construct ''app_dev'' None) d' [],
                   d', if truthy (getProp ?d ''createdAt'') then Suc 0 else Suc (Suc 0))"
    and upd: "d' ''updatedAt''
                = Some (JStr (demo_clock (if truthy (getProp ?d ''createdAt'') then 0 else Suc 0)))"
    and cre: "d' ''createdAt''
                = (if truthy (getProp ?d ''createdAt'') then ?d ''createdAt'' else Some (JStr (demo_clock 0)))"
    and others: "\<forall>key. key \<noteq> ''createdAt'' \<and> key \<noteq> ''updatedAt'' \<longrightarrow> d' key = ?d key"
    by auto
  have t: "truthy (getProp ?d ''createdAt'')"
    by (simp add: getProp_def demo_doc_def)
  from run have "fst (snd (put (\<lambda>d given. (d, given)) demo_clock 0 ?d None)) = d'"
    by simp
  moreover from cre t have "d' ''createdAt'' = Some (JStr ''2023-12-31T09:00:00.000Z'')"
    by (simp add: demo_doc_def)
  moreover from upd t have "d' ''updatedAt'' = Some (JStr ''2024-05-01T10:00:00.000Z'')"
    by (simp add: demo_clock_def)
  moreover from others have "d' ''_id'' = Some (JStr ''ro_1'')"
    by (simp add: demo_doc_def)
  ultimately show ?thesis by blast
qed

text \<open>
  C10 (as stated) fails: a document whose \<open>createdAt\<close> is present but is the empty string
  has it replaced by the current timestamp.
\<close>

theorem put_replaces_falsy_createdAt:
  "(case getPouchDB demo_env demo_module ''app_dev'' None of
      (Inl e, st') \<Rightarrow> False
    | (Inr db, st') \<Rightarrow>
        demo_doc (JStr []) ''createdAt'' = Some (JStr [])
        \<and> fst (snd (db_put db demo_clock 0 (demo_doc (JStr [])) None)) ''createdAt''
            = Some (JStr ''2024-05-01T10:00:00.000Z'')
        \<and> fst (db_put db demo_clock 0 (demo_doc (JStr [])) None)
            = (fst (snd (db_put db demo_clock 0 (demo_doc (JStr [])) None)), []))"
  by (simp add: getPouchDB_def demo_env_def demo_module_def put_outcome Let_def getProp_def
      demo_doc_def demo_clock_def)

end
